theory Spec2Isabelle
  imports Complex_Main "HOL-Library.Monad_Syntax" "HOL-Library.AList" "HOL-Library.Product_Lexorder"
begin

section \<open>Values\<close>

text \<open>
  Python floats are modelled as the reals extended by the two infinities and NaN.
  Rounding and overflow of finite floats are not modelled: a finite float is a real.
  The comparisons follow IEEE 754 as Python implements them: every ordering comparison
  with NaN is false, and NaN differs from everything, itself included.
\<close>

datatype xfloat = Fin real | PInf | NInf | NaN

fun xlt :: "xfloat \<Rightarrow> xfloat \<Rightarrow> bool" where
  "xlt NaN _ = False"
| "xlt _ NaN = False"
| "xlt (Fin a) (Fin b) = (a < b)"
| "xlt (Fin _) PInf = True"
| "xlt (Fin _) NInf = False"
| "xlt PInf _ = False"
| "xlt NInf NInf = False"
| "xlt NInf _ = True"

definition xgt :: "xfloat \<Rightarrow> xfloat \<Rightarrow> bool" where
  "xgt a b = xlt b a"

definition xne :: "xfloat \<Rightarrow> xfloat \<Rightarrow> bool" where
  "xne a b = (a = NaN \<or> b = NaN \<or> a \<noteq> b)"

definition xeq :: "xfloat \<Rightarrow> xfloat \<Rightarrow> bool" where
  "xeq a b = (\<not> xne a b)"

fun xneg :: "xfloat \<Rightarrow> xfloat" where
  "xneg (Fin a) = Fin (- a)"
| "xneg PInf = NInf"
| "xneg NInf = PInf"
| "xneg NaN = NaN"

fun xadd :: "xfloat \<Rightarrow> xfloat \<Rightarrow> xfloat" where
  "xadd NaN _ = NaN"
| "xadd _ NaN = NaN"
| "xadd (Fin a) (Fin b) = Fin (a + b)"
| "xadd (Fin _) PInf = PInf"
| "xadd (Fin _) NInf = NInf"
| "xadd PInf NInf = NaN"
| "xadd PInf _ = PInf"
| "xadd NInf PInf = NaN"
| "xadd NInf _ = NInf"

definition xsub :: "xfloat \<Rightarrow> xfloat \<Rightarrow> xfloat" where
  "xsub a b = xadd a (xneg b)"

text \<open>Division of a float by the length of a list; a zero length raises ZeroDivisionError.\<close>

fun xdiv_len :: "xfloat \<Rightarrow> nat \<Rightarrow> xfloat option" where
  "xdiv_len x 0 = None"
| "xdiv_len (Fin a) n = Some (Fin (a / real n))"
| "xdiv_len x n = Some x"

text \<open>The built-in \<open>sum\<close>: starts from 0 and adds from the left.\<close>

definition py_sum :: "xfloat list \<Rightarrow> xfloat" where
  "py_sum ds = foldl xadd (Fin 0) ds"

text \<open>
  The built-in \<open>max\<close>: ValueError on an empty list; otherwise the first element is kept
  until a later one compares greater.
\<close>

fun py_max :: "xfloat list \<Rightarrow> xfloat option" where
  "py_max [] = None"
| "py_max (x # xs) = Some (foldl (\<lambda>m y. if xgt y m then y else m) x xs)"

text \<open>
  List indexing with a Python integer: a negative index counts from the end, an index
  out of range raises IndexError.
\<close>

definition py_getitem :: "'a list \<Rightarrow> int \<Rightarrow> 'a option" where
  "py_getitem xs i =
     (if 0 \<le> i \<and> i < int (length xs) then Some (xs ! nat i)
      else if i < 0 \<and> - int (length xs) \<le> i then Some (xs ! nat (int (length xs) + i))
      else None)"

text \<open>The slice \<open>xs[:k]\<close>: a negative bound counts from the end.\<close>

definition py_slice_to :: "'a list \<Rightarrow> int \<Rightarrow> 'a list" where
  "py_slice_to xs k = (if k < 0 then take (nat (int (length xs) + k)) xs else take (nat k) xs)"

text \<open>\<open>range(a, b)\<close> over Python integers.\<close>

definition py_range :: "int \<Rightarrow> int \<Rightarrow> int list" where
  "py_range a b = [a..b - 1]"

section \<open>IndividualClass\<close>

text \<open>
  The attribute \<open>evaluation\<close> holds either a float (single objective) or a list of
  numbers (initially the empty list).
\<close>

datatype eval_value = EFloat xfloat | EList "xfloat list"

record 'f IndividualClass =
  fenotype :: 'f
  evaluation :: eval_value
  objective_values :: "real list option"

definition IndividualClass_init :: "'f \<Rightarrow> real list option \<Rightarrow> 'f IndividualClass" where
  "IndividualClass_init f ov = \<lparr>fenotype = f, evaluation = EList [], objective_values = ov\<rparr>"

text \<open>
  \<open>__lt__\<close>. The loop runs over the indices of \<open>self.evaluation\<close> and reads
  \<open>other.evaluation\<close> at the same index, so it is a simultaneous recursion over both
  lists. Reading past the end of \<open>other.evaluation\<close> raises IndexError, indexing a float
  raises TypeError (both \<open>None\<close> here). Falling out of the loop returns Python's \<open>None\<close>,
  which every caller reads as false.
\<close>

fun lt_loop :: "xfloat list \<Rightarrow> eval_value \<Rightarrow> bool option" where
  "lt_loop [] _ = Some False"
| "lt_loop (x # xs) (EFloat _) = None"
| "lt_loop (x # xs) (EList []) = None"
| "lt_loop (x # xs) (EList (y # ys)) =
     (if xgt x y then Some False
      else if xlt x y then Some True
      else lt_loop xs (EList ys))"

definition Individual_lt :: "'f IndividualClass \<Rightarrow> 'f IndividualClass \<Rightarrow> bool option" where
  "Individual_lt self other =
     (case evaluation self of
        EList xs \<Rightarrow> lt_loop xs (evaluation other)
      | EFloat x \<Rightarrow>
          (case evaluation other of
             EFloat y \<Rightarrow> Some (xlt x y)
           | EList _ \<Rightarrow> None))"

text \<open>\<open>__eq__\<close>, with the same loop structure; \<open>float == list\<close> is false, not an error.\<close>

fun eq_loop :: "xfloat list \<Rightarrow> eval_value \<Rightarrow> bool option" where
  "eq_loop [] _ = Some True"
| "eq_loop (x # xs) (EFloat _) = None"
| "eq_loop (x # xs) (EList []) = None"
| "eq_loop (x # xs) (EList (y # ys)) =
     (if xne x y then Some False else eq_loop xs (EList ys))"

definition Individual_eq :: "'f IndividualClass \<Rightarrow> 'f IndividualClass \<Rightarrow> bool option" where
  "Individual_eq self other =
     (case evaluation self of
        EList xs \<Rightarrow> eq_loop xs (evaluation other)
      | EFloat x \<Rightarrow>
          (case evaluation other of
             EFloat y \<Rightarrow> Some (xeq x y)
           | EList _ \<Rightarrow> Some False))"

text \<open>
  The built-in \<open>sorted\<close> on individuals: a stable sort that only calls \<open>__lt__\<close>,
  modelled as insertion sort; an exception raised by a comparison propagates. A list of
  one element is returned without any comparison.
\<close>

fun insort_py :: "'f IndividualClass \<Rightarrow> 'f IndividualClass list \<Rightarrow> 'f IndividualClass list option" where
  "insort_py x [] = Some [x]"
| "insort_py x (y # ys) =
     do {
       b \<leftarrow> Individual_lt y x;
       if b then do { r \<leftarrow> insort_py x ys; Some (y # r) }
       else Some (x # y # ys)
     }"

fun sorted_py :: "'f IndividualClass list \<Rightarrow> 'f IndividualClass list option" where
  "sorted_py [] = Some []"
| "sorted_py (x # xs) = do { r \<leftarrow> sorted_py xs; insort_py x r }"

section \<open>The random source and \<open>random.choices\<close>\<close>

text \<open>
  The module-level random generator is global state. It lives, together with whatever
  state the Model and the objective functions keep, in a world \<open>'w\<close> that is passed
  through every call; \<open>rnd\<close> is \<open>random.random()\<close>.

  \<open>random.choices(population, k = k)\<close> of the standard library draws \<open>k\<close> times and
  returns \<open>population[floor(random() * len(population))]\<close> for each draw; a count below
  zero gives no draw at all.
\<close>

fun choices_loop :: "('w \<Rightarrow> real \<times> 'w) \<Rightarrow> 'a list \<Rightarrow> nat \<Rightarrow> 'w \<Rightarrow> ('a list \<times> 'w) option" where
  "choices_loop rnd pop 0 w = Some ([], w)"
| "choices_loop rnd pop (Suc k) w =
     (case rnd w of (u, w1) \<Rightarrow>
        do {
          x \<leftarrow> py_getitem pop \<lfloor>u * real (length pop)\<rfloor>;
          (xs, w2) \<leftarrow> choices_loop rnd pop k w1;
          Some (x # xs, w2)
        })"

definition choices :: "('w \<Rightarrow> real \<times> 'w) \<Rightarrow> 'a list \<Rightarrow> int \<Rightarrow> 'w \<Rightarrow> ('a list \<times> 'w) option" where
  "choices rnd pop k w = choices_loop rnd pop (nat k) w"

text \<open>
  \<open>random.choices(population, weights = weights, k = k)\<close>: the weights are accumulated,
  their total must be positive (ValueError otherwise, IndexError when there is none), and
  each draw is located by \<open>bisect\<close> in the accumulated weights, between 0 and
  \<open>len(population) - 1\<close>.
\<close>

fun accumulate :: "real \<Rightarrow> real list \<Rightarrow> real list" where
  "accumulate acc [] = []"
| "accumulate acc (x # xs) = (acc + x) # accumulate (acc + x) xs"

function bisect :: "real list \<Rightarrow> real \<Rightarrow> nat \<Rightarrow> nat \<Rightarrow> nat" where
  "bisect a x lo hi =
     (if lo < hi then
        (let mid = (lo + hi) div 2
         in if x < a ! mid then bisect a x lo mid else bisect a x (mid + 1) hi)
      else lo)"
  by pat_completeness auto
termination
  by (relation "measure (\<lambda>(a, x, lo, hi). hi - lo)") auto

fun weighted_loop ::
  "('w \<Rightarrow> real \<times> 'w) \<Rightarrow> 'a list \<Rightarrow> real list \<Rightarrow> real \<Rightarrow> nat \<Rightarrow> 'w \<Rightarrow> ('a list \<times> 'w) option" where
  "weighted_loop rnd pop cum tot 0 w = Some ([], w)"
| "weighted_loop rnd pop cum tot (Suc k) w =
     (case rnd w of (u, w1) \<Rightarrow>
        do {
          x \<leftarrow> py_getitem pop (int (bisect cum (u * tot) 0 (length pop - 1)));
          (xs, w2) \<leftarrow> weighted_loop rnd pop cum tot k w1;
          Some (x # xs, w2)
        })"

definition choices_weighted ::
  "('w \<Rightarrow> real \<times> 'w) \<Rightarrow> 'a list \<Rightarrow> real list \<Rightarrow> int \<Rightarrow> 'w \<Rightarrow> ('a list \<times> 'w) option" where
  "choices_weighted rnd pop weights k w =
     (let cum = accumulate 0 weights
      in if length cum \<noteq> length pop then None
         else do {
           tot \<leftarrow> py_getitem cum (- 1);
           if tot \<le> 0 then None
           else weighted_loop rnd pop cum tot (nat k) w
         })"

section \<open>Selection strategies\<close>

text \<open>
  \<open>_tournament_selection\<close>: \<open>amount\<close> times, \<open>tournament_size\<close> competitors are drawn
  and the first of the sorted competitors is appended to the selection.
\<close>

fun tournament_loop ::
  "('w \<Rightarrow> real \<times> 'w) \<Rightarrow> int \<Rightarrow> 'f IndividualClass list \<Rightarrow> nat \<Rightarrow> 'w
    \<Rightarrow> ('f IndividualClass list \<times> 'w) option" where
  "tournament_loop rnd tsize parent_population 0 w = Some ([], w)"
| "tournament_loop rnd tsize parent_population (Suc n) w =
     do {
       (competitors, w1) \<leftarrow> choices rnd parent_population tsize w;
       s \<leftarrow> sorted_py competitors;
       winner \<leftarrow> py_getitem s 0;
       (selection, w2) \<leftarrow> tournament_loop rnd tsize parent_population n w1;
       Some (winner # selection, w2)
     }"

definition tournament_selection ::
  "('w \<Rightarrow> real \<times> 'w) \<Rightarrow> int \<Rightarrow> 'f IndividualClass list \<Rightarrow> int \<Rightarrow> 'w
    \<Rightarrow> ('f IndividualClass list \<times> 'w) option" where
  "tournament_selection rnd tsize parent_population amount w =
     tournament_loop rnd tsize parent_population (nat amount) w"

text \<open>
  \<open>_weighted_random_sample\<close>: position \<open>i\<close> of the sorted population gets the weight
  \<open>(N - i) / N\<close> unless probabilities are passed in.
\<close>

definition weighted_random_sample ::
  "('w \<Rightarrow> real \<times> 'w) \<Rightarrow> 'f IndividualClass list \<Rightarrow> int \<Rightarrow> real list option \<Rightarrow> 'w
    \<Rightarrow> ('f IndividualClass list \<times> 'w) option" where
  "weighted_random_sample rnd parent_population amount probabilities w =
     do {
       sorted_population \<leftarrow> sorted_py parent_population;
       let total_proportion = length sorted_population;
       let probs = (case probabilities of
                      None \<Rightarrow> map (\<lambda>i. (real total_proportion - real i) / real total_proportion)
                                [0..<total_proportion]
                    | Some ps \<Rightarrow> ps);
       choices_weighted rnd sorted_population probs amount w
     }"

section \<open>Pareto strength (\<open>_spea2\<close>)\<close>

text \<open>
  \<open>objective_values[obj_idx][ind_idx]\<close>; the indices come from \<open>range\<close>, so they are
  never negative.
\<close>

definition nth2 :: "real list list \<Rightarrow> nat \<Rightarrow> nat \<Rightarrow> real option" where
  "nth2 ov obj_idx ind_idx = do { row \<leftarrow> py_getitem ov (int obj_idx); py_getitem row (int ind_idx) }"

text \<open>The innermost loop of the strengths calculation, with its \<open>break\<close>.\<close>

fun dominated_loop :: "real list list \<Rightarrow> nat \<Rightarrow> nat \<Rightarrow> nat list \<Rightarrow> bool option" where
  "dominated_loop ov ind_idx comparison_ind_idx [] = Some True"
| "dominated_loop ov ind_idx comparison_ind_idx (obj_idx # rest) =
     do {
       a \<leftarrow> nth2 ov obj_idx ind_idx;
       b \<leftarrow> nth2 ov obj_idx comparison_ind_idx;
       if a < b then Some False
       else dominated_loop ov ind_idx comparison_ind_idx rest
     }"

fun dominated_solutions_loop ::
  "real list list \<Rightarrow> nat \<Rightarrow> nat \<Rightarrow> nat list \<Rightarrow> int \<Rightarrow> int option" where
  "dominated_solutions_loop ov objs ind_idx [] dominated_solutions = Some dominated_solutions"
| "dominated_solutions_loop ov objs ind_idx (comparison_ind_idx # rest) dominated_solutions =
     do {
       dominated \<leftarrow> dominated_loop ov ind_idx comparison_ind_idx [0..<objs];
       dominated_solutions_loop ov objs ind_idx rest
         (if dominated then dominated_solutions + 1 else dominated_solutions)
     }"

fun strengths_loop :: "real list list \<Rightarrow> nat \<Rightarrow> nat \<Rightarrow> nat list \<Rightarrow> int list option" where
  "strengths_loop ov objs individuals [] = Some []"
| "strengths_loop ov objs individuals (ind_idx # rest) =
     do {
       dominated_solutions \<leftarrow> dominated_solutions_loop ov objs ind_idx [0..<individuals] 0;
       strengths \<leftarrow> strengths_loop ov objs individuals rest;
       Some ((dominated_solutions - 1) # strengths)
     }"

text \<open>The innermost loop of the strengths sum, with its \<open>break\<close>.\<close>

fun dominates_me_loop :: "real list list \<Rightarrow> nat \<Rightarrow> nat \<Rightarrow> nat list \<Rightarrow> bool option" where
  "dominates_me_loop ov ind_idx comparison_ind_idx [] = Some True"
| "dominates_me_loop ov ind_idx comparison_ind_idx (obj_idx # rest) =
     do {
       a \<leftarrow> nth2 ov obj_idx ind_idx;
       b \<leftarrow> nth2 ov obj_idx comparison_ind_idx;
       if a \<ge> b then Some False
       else dominates_me_loop ov ind_idx comparison_ind_idx rest
     }"

fun total_strengths_loop ::
  "real list list \<Rightarrow> nat \<Rightarrow> int list \<Rightarrow> nat \<Rightarrow> nat list \<Rightarrow> int \<Rightarrow> int option" where
  "total_strengths_loop ov objs strengths ind_idx [] total_strengths = Some total_strengths"
| "total_strengths_loop ov objs strengths ind_idx (comparison_ind_idx # rest) total_strengths =
     do {
       dominates_me \<leftarrow> dominates_me_loop ov ind_idx comparison_ind_idx [0..<objs];
       if dominates_me then
         do {
           s \<leftarrow> py_getitem strengths (int comparison_ind_idx);
           total_strengths_loop ov objs strengths ind_idx rest (total_strengths + s)
         }
       else total_strengths_loop ov objs strengths ind_idx rest total_strengths
     }"

fun evaluations_loop ::
  "real list list \<Rightarrow> nat \<Rightarrow> int list \<Rightarrow> nat \<Rightarrow> nat list \<Rightarrow> int list option" where
  "evaluations_loop ov objs strengths individuals [] = Some []"
| "evaluations_loop ov objs strengths individuals (ind_idx # rest) =
     do {
       total_strengths \<leftarrow> total_strengths_loop ov objs strengths ind_idx [0..<individuals] 0;
       evaluations \<leftarrow> evaluations_loop ov objs strengths individuals rest;
       Some (total_strengths # evaluations)
     }"


definition spea2 :: "nat \<Rightarrow> real list list \<Rightarrow> int list option" where
  "spea2 objs ov =
     do {
       first \<leftarrow> py_getitem ov 0;
       strengths \<leftarrow> strengths_loop ov objs (length first) [0..<length first];
       evaluations_loop ov objs strengths (length first) [0..<length first]
     }"

section \<open>Crowding distance (\<open>_crowding_distance\<close>)\<close>

text \<open>
  \<open>zip(*objective_values, range(len(objective_values[0])))\<close>: item \<open>i\<close> holds the
  objective values of individual \<open>i\<close> and, last, the index \<open>i\<close>; \<open>zip\<close> stops at
  the shortest argument.
\<close>

definition make_items :: "real list list \<Rightarrow> nat \<Rightarrow> (real list \<times> nat) list" where
  "make_items ov individuals =
     map (\<lambda>i. (map (\<lambda>row. row ! i) ov, i))
       [0..<foldr (\<lambda>row n. min (length row) n) ov individuals]"

text \<open>
  \<open>distances\<close> is a \<open>defaultdict(list)\<close>: an association list in insertion order, where
  a missing key stands for the empty list.
\<close>

definition dd_append :: "nat \<Rightarrow> xfloat \<Rightarrow> (nat \<times> xfloat list) list \<Rightarrow> (nat \<times> xfloat list) list" where
  "dd_append k v distances =
     AList.update k ((case map_of distances k of None \<Rightarrow> [] | Some ds \<Rightarrow> ds) @ [v]) distances"

text \<open>
  One round of the loop over the objectives. \<open>items.sort(key = ...)\<close> is stable and
  sorts in place, so each round starts from the order the previous round left. The
  indices of the inner loop come from \<open>range(1, len(items) - 1)\<close> and are in range.
\<close>

definition crowding_step ::
  "nat \<Rightarrow> (real list \<times> nat) list \<times> (nat \<times> xfloat list) list
    \<Rightarrow> ((real list \<times> nat) list \<times> (nat \<times> xfloat list) list) option" where
  "crowding_step objective_idx st =
     (case st of (items, distances) \<Rightarrow>
        (let items1 = sort_key (\<lambda>item. fst item ! objective_idx) items
         in do {
              first \<leftarrow> py_getitem items1 0;
              let d1 = dd_append (snd first) NInf distances;
              lst \<leftarrow> py_getitem items1 (- 1);
              let d2 = dd_append (snd lst) NInf d1;
              Some (items1,
                fold (\<lambda>i d. dd_append (snd (items1 ! i))
                         (Fin (fst (items1 ! (i + 1)) ! objective_idx
                               - fst (items1 ! (i - 1)) ! objective_idx)) d)
                  [1..<length items1 - 1] d2)
            }))"

fun crowding_loop ::
  "nat list \<Rightarrow> (real list \<times> nat) list \<times> (nat \<times> xfloat list) list
    \<Rightarrow> ((real list \<times> nat) list \<times> (nat \<times> xfloat list) list) option" where
  "crowding_loop [] st = Some st"
| "crowding_loop (objective_idx # rest) st =
     do { st1 \<leftarrow> crowding_step objective_idx st; crowding_loop rest st1 }"

fun mean_distances :: "(nat \<times> xfloat list) list \<Rightarrow> nat \<Rightarrow> (nat \<times> xfloat) list option" where
  "mean_distances [] n = Some []"
| "mean_distances ((item_index, ds) # rest) n =
     do {
       m \<leftarrow> xdiv_len (py_sum ds) n;
       r \<leftarrow> mean_distances rest n;
       Some ((item_index, m) # r)
     }"

definition crowding_distance :: "real list list \<Rightarrow> xfloat list option" where
  "crowding_distance ov =
     do {
       first \<leftarrow> py_getitem ov 0;
       (items, distances) \<leftarrow> crowding_loop [0..<length ov] (make_items ov (length first), []);
       indexes_mean_distances \<leftarrow> mean_distances distances (length ov);
       let crowding_distances = map snd (sort_key fst indexes_mean_distances);
       max_cd \<leftarrow> py_max crowding_distances;
       Some (map (\<lambda>cd. xsub max_cd cd) crowding_distances)
     }"

section \<open>GeneticProgramClass\<close>

text \<open>
  The Model and the objective functions are external collaborators. They are taken as
  parameters; each call may read and change the world. They are assumed to return (an
  exception raised by a collaborator would end the run and is not modelled).
\<close>

record ('f, 'x, 'p, 'w) model_ops =
  generate_population :: "int \<Rightarrow> 'w \<Rightarrow> 'f list \<times> 'w"
  mutate :: "'f \<Rightarrow> 'w \<Rightarrow> 'f \<times> 'w"
  crossover :: "'f \<Rightarrow> 'f \<Rightarrow> 'w \<Rightarrow> 'f \<times> 'w"
  evaluate :: "'f \<Rightarrow> 'x list \<Rightarrow> 'w \<Rightarrow> 'p \<times> 'w"

type_synonym ('y, 'p, 'a, 'w) objective_function = "'y list \<Rightarrow> 'p \<Rightarrow> 'a list \<Rightarrow> 'w \<Rightarrow> real \<times> 'w"

text \<open>
  The attributes of the engine. The \<open>logs\<close> dictionary and the files and plots written
  from it are reporting and are left out.
\<close>

record ('f, 'x, 'y, 'p, 'a, 'w) GeneticProgramClass =
  population_size :: int
  generations :: int
  Model :: "('f, 'x, 'p, 'w) model_ops"
  objective_functions :: "('y, 'p, 'a, 'w) objective_function list"
  objective_functions_arguments :: "'a list list"
  multiobjective_fitness :: string
  sampling_method :: string
  mutation_ratio :: real
  tournament_size :: int
  experiment_name :: string
  logs_level :: int
  objectives :: nat
  darwin_champion :: "'f option"
  population :: "'f IndividualClass list"
  x_train :: "'x list"
  y_train :: "'y list"
  ran_generations :: int

text \<open>
  \<open>__init__\<close>. \<open>objective_functions\<close> is either a list or a single function, which is
  wrapped into a list; the keyword arguments are given with their values (the defaults are
  \<open>None\<close>, \<open>"SPEA2"\<close>, \<open>"tournament"\<close>, 0.4, 2 and \<open>None\<close>); \<open>now\<close> is the name
  built from the clock when no experiment name is given. No argument is checked, and no
  path of the constructor raises.
\<close>

definition GeneticProgramClass_init ::
  "int \<Rightarrow> int \<Rightarrow> ('f, 'x, 'p, 'w) model_ops
    \<Rightarrow> ('y, 'p, 'a, 'w) objective_function + ('y, 'p, 'a, 'w) objective_function list
    \<Rightarrow> 'a list list option \<Rightarrow> string \<Rightarrow> string \<Rightarrow> real \<Rightarrow> int \<Rightarrow> string option \<Rightarrow> string
    \<Rightarrow> ('f, 'x, 'y, 'p, 'a, 'w) GeneticProgramClass option" where
  "GeneticProgramClass_init population_size' generations' Model' objective_functions'
      objective_functions_arguments' multiobjective_fitness' sampling_method' mutation_ratio'
      tournament_size' experiment_name' now =
     (let fs = (case objective_functions' of Inl f \<Rightarrow> [f] | Inr l \<Rightarrow> l)
      in Some \<lparr>
           population_size = population_size',
           generations = generations',
           Model = Model',
           objective_functions = fs,
           objective_functions_arguments =
             (case objective_functions_arguments' of
                None \<Rightarrow> replicate (length fs) []
              | Some args \<Rightarrow> args),
           multiobjective_fitness = multiobjective_fitness',
           sampling_method = sampling_method',
           mutation_ratio = mutation_ratio',
           tournament_size = tournament_size',
           experiment_name = (case experiment_name' of None \<Rightarrow> now | Some n \<Rightarrow> n),
           logs_level = 0,
           objectives = length fs,
           darwin_champion = None,
           population = [],
           x_train = [],
           y_train = [],
           ran_generations = 0
         \<rparr>)"

section \<open>\<open>_evaluate_population\<close>\<close>

text \<open>
  The objective functions of one individual, in order; the extra arguments of function
  \<open>obj_idx\<close> are \<open>objective_functions_arguments[obj_idx]\<close>.
\<close>

fun objective_loop ::
  "('y, 'p, 'a, 'w) objective_function list \<Rightarrow> nat \<Rightarrow> 'a list list \<Rightarrow> 'y list \<Rightarrow> 'p \<Rightarrow> 'w
    \<Rightarrow> (real list \<times> 'w) option" where
  "objective_loop [] obj_idx args y prediction w = Some ([], w)"
| "objective_loop (objective_function # rest) obj_idx args y prediction w =
     do {
       a \<leftarrow> py_getitem args (int obj_idx);
       (case objective_function y prediction a w of (v, w1) \<Rightarrow>
          do {
            (vs, w2) \<leftarrow> objective_loop rest (Suc obj_idx) args y prediction w1;
            Some (v # vs, w2)
          })
     }"

text \<open>
  Lines 235 to 240: only an individual whose \<open>objective_values\<close> is \<open>None\<close> is predicted
  and scored.
\<close>

fun compute_objectives ::
  "('f, 'x, 'y, 'p, 'a, 'w) GeneticProgramClass \<Rightarrow> 'x list \<Rightarrow> 'y list \<Rightarrow> 'f IndividualClass list
    \<Rightarrow> 'w \<Rightarrow> ('f IndividualClass list \<times> 'w) option" where
  "compute_objectives gp x y [] w = Some ([], w)"
| "compute_objectives gp x y (individual # rest) w =
     (case objective_values individual of
        None \<Rightarrow>
          (case evaluate (Model gp) (fenotype individual) x w of (prediction, w1) \<Rightarrow>
             do {
               (vals, w2) \<leftarrow> objective_loop (objective_functions gp) 0
                                (objective_functions_arguments gp) y prediction w1;
               (rest1, w3) \<leftarrow> compute_objectives gp x y rest w2;
               Some (individual\<lparr>objective_values := Some vals\<rparr> # rest1, w3)
             })
      | Some _ \<Rightarrow>
          do {
            (rest1, w1) \<leftarrow> compute_objectives gp x y rest w;
            Some (individual # rest1, w1)
          })"

text \<open>Single objective: \<open>individual.evaluation = individual.objective_values[0]\<close>.\<close>

fun single_objective_evaluations :: "'f IndividualClass list \<Rightarrow> 'f IndividualClass list option" where
  "single_objective_evaluations [] = Some []"
| "single_objective_evaluations (individual # rest) =
     do {
       vals \<leftarrow> objective_values individual;
       v \<leftarrow> py_getitem vals 0;
       rest1 \<leftarrow> single_objective_evaluations rest;
       Some (individual\<lparr>evaluation := EFloat (Fin v)\<rparr> # rest1)
     }"

text \<open>
  \<open>[[individual.objective_values[obj_idx] for individual in self.population]
     for obj_idx in range(self.objectives)]\<close>
\<close>

fun objective_row :: "'f IndividualClass list \<Rightarrow> nat \<Rightarrow> real list option" where
  "objective_row [] obj_idx = Some []"
| "objective_row (individual # rest) obj_idx =
     do {
       vals \<leftarrow> objective_values individual;
       v \<leftarrow> py_getitem vals (int obj_idx);
       r \<leftarrow> objective_row rest obj_idx;
       Some (v # r)
     }"

fun objective_matrix :: "'f IndividualClass list \<Rightarrow> nat list \<Rightarrow> real list list option" where
  "objective_matrix pop [] = Some []"
| "objective_matrix pop (obj_idx # rest) =
     do {
       row \<leftarrow> objective_row pop obj_idx;
       rows \<leftarrow> objective_matrix pop rest;
       Some (row # rows)
     }"

text \<open>\<open>individual.evaluation = [evaluations[ind_idx]]\<close>, over \<open>enumerate(self.population)\<close>.\<close>

fun assign_evaluations ::
  "'f IndividualClass list \<Rightarrow> nat \<Rightarrow> int list \<Rightarrow> 'f IndividualClass list option" where
  "assign_evaluations [] ind_idx evaluations = Some []"
| "assign_evaluations (individual # rest) ind_idx evaluations =
     do {
       e \<leftarrow> py_getitem evaluations (int ind_idx);
       rest1 \<leftarrow> assign_evaluations rest (Suc ind_idx) evaluations;
       Some (individual\<lparr>evaluation := EList [Fin (real_of_int e)]\<rparr> # rest1)
     }"

text \<open>
  \<open>individual.evaluation.append(crowding_distances[ind_idx])\<close>; a float has no
  \<open>append\<close>.
\<close>

fun append_crowding ::
  "'f IndividualClass list \<Rightarrow> nat \<Rightarrow> xfloat list \<Rightarrow> 'f IndividualClass list option" where
  "append_crowding [] ind_idx crowding_distances = Some []"
| "append_crowding (individual # rest) ind_idx crowding_distances =
     do {
       cd \<leftarrow> py_getitem crowding_distances (int ind_idx);
       e \<leftarrow> (case evaluation individual of EList es \<Rightarrow> Some (EList (es @ [cd])) | EFloat _ \<Rightarrow> None);
       rest1 \<leftarrow> append_crowding rest (Suc ind_idx) crowding_distances;
       Some (individual\<lparr>evaluation := e\<rparr> # rest1)
     }"

text \<open>
  \<open>colored_plot\<close> draws and saves a figure, which is outside the model; what it can
  raise on its arguments is kept: its call reads \<open>objective_values[0]\<close> and
  \<open>objective_values[1]\<close>, and \<open>max(values)\<close> needs a value.
\<close>

definition colored_plot :: "real list list \<Rightarrow> int list \<Rightarrow> unit option" where
  "colored_plot ov vals =
     do {
       x \<leftarrow> py_getitem ov 0;
       y \<leftarrow> py_getitem ov 1;
       if vals = [] then None else Some ()
     }"

text \<open>
  The branch of \<open>_evaluate_population\<close> for several objectives and the fitness
  \<open>"SPEA2"\<close> (lines 254 to 279).
\<close>

definition multi_objective_evaluations ::
  "nat \<Rightarrow> 'f IndividualClass list \<Rightarrow> 'f IndividualClass list option" where
  "multi_objective_evaluations objs pop1 =
     do {
       ov \<leftarrow> objective_matrix pop1 [0..<objs];
       evaluations \<leftarrow> spea2 objs ov;
       pop2 \<leftarrow> assign_evaluations pop1 0 evaluations;
       _ \<leftarrow> colored_plot ov evaluations;
       crowding_distances \<leftarrow> crowding_distance ov;
       append_crowding pop2 0 crowding_distances
     }"

text \<open>
  The ranking of a population whose objective values are known (lines 249 to 279). With
  several objectives and a fitness other than \<open>"SPEA2"\<close> the name \<open>objective_values\<close>
  is unbound when the crowding distance is called, which raises.
\<close>

definition assign_fitness ::
  "('f, 'x, 'y, 'p, 'a, 'w) GeneticProgramClass \<Rightarrow> 'f IndividualClass list
    \<Rightarrow> 'f IndividualClass list option" where
  "assign_fitness gp pop1 =
     (if objectives gp = 1 then single_objective_evaluations pop1
      else if multiobjective_fitness gp = ''SPEA2'' then
        multi_objective_evaluations (objectives gp) pop1
      else None)"

text \<open>\<open>_evaluate_population\<close>, with its optional arguments.\<close>

definition evaluate_population ::
  "('f, 'x, 'y, 'p, 'a, 'w) GeneticProgramClass \<Rightarrow> 'x list option \<Rightarrow> 'y list option \<Rightarrow> 'w
    \<Rightarrow> (('f, 'x, 'y, 'p, 'a, 'w) GeneticProgramClass \<times> 'w) option" where
  "evaluate_population gp x y w =
     (let x1 = (case x of None \<Rightarrow> x_train gp | Some v \<Rightarrow> v);
          y1 = (case y of None \<Rightarrow> y_train gp | Some v \<Rightarrow> v)
      in do {
        (pop1, w1) \<leftarrow> compute_objectives gp x1 y1 (population gp) w;
        pop2 \<leftarrow> assign_fitness gp pop1;
        Some (gp\<lparr>population := pop2\<rparr>, w1)
      })"

section \<open>\<open>fit\<close>\<close>

text \<open>
  The three sampling methods of \<open>fit\<close>; each branch of the source calls its strategy three
  times, with the same population and with \<open>crossovers\<close>, \<open>crossovers\<close> and
  \<open>mutations\<close>.
\<close>

definition sample ::
  "('w \<Rightarrow> real \<times> 'w) \<Rightarrow> ('f, 'x, 'y, 'p, 'a, 'w) GeneticProgramClass \<Rightarrow> int \<Rightarrow> 'w
    \<Rightarrow> ('f IndividualClass list \<times> 'w) option" where
  "sample rnd gp amount w =
     (if sampling_method gp = ''tournament'' then
        tournament_selection rnd (tournament_size gp) (population gp) amount w
      else if sampling_method gp = ''weighted_random'' then
        weighted_random_sample rnd (population gp) amount None w
      else choices rnd (population gp) amount w)"

text \<open>\<open>[IndividualClass(self.Model.mutate(individual.fenotype)) for individual in selected_mutations]\<close>\<close>

fun mutate_all ::
  "('f, 'x, 'p, 'w) model_ops \<Rightarrow> 'f IndividualClass list \<Rightarrow> 'w \<Rightarrow> 'f IndividualClass list \<times> 'w" where
  "mutate_all M [] w = ([], w)"
| "mutate_all M (individual # rest) w =
     (case mutate M (fenotype individual) w of (f, w1) \<Rightarrow>
        (case mutate_all M rest w1 of (rest1, w2) \<Rightarrow>
           (IndividualClass_init f None # rest1, w2)))"

text \<open>
  \<open>[IndividualClass(self.Model.crossover(selected_first_parents[i].fenotype,
     selected_second_parents[i].fenotype)) for i in range(crossovers)]\<close>
\<close>

fun crossover_all ::
  "('f, 'x, 'p, 'w) model_ops \<Rightarrow> 'f IndividualClass list \<Rightarrow> 'f IndividualClass list \<Rightarrow> int list
    \<Rightarrow> 'w \<Rightarrow> ('f IndividualClass list \<times> 'w) option" where
  "crossover_all M first_parents second_parents [] w = Some ([], w)"
| "crossover_all M first_parents second_parents (i # rest) w =
     do {
       a \<leftarrow> py_getitem first_parents i;
       b \<leftarrow> py_getitem second_parents i;
       (case crossover M (fenotype a) (fenotype b) w of (f, w1) \<Rightarrow>
          do {
            (rest1, w2) \<leftarrow> crossover_all M first_parents second_parents rest w1;
            Some (IndividualClass_init f None # rest1, w2)
          })
     }"

text \<open>Parents selection and the two \<open>extend\<close> calls (lines 181 to 197).\<close>

definition reproduce ::
  "('w \<Rightarrow> real \<times> 'w) \<Rightarrow> int \<Rightarrow> int \<Rightarrow> ('f, 'x, 'y, 'p, 'a, 'w) GeneticProgramClass \<Rightarrow> 'w
    \<Rightarrow> (('f, 'x, 'y, 'p, 'a, 'w) GeneticProgramClass \<times> 'w) option" where
  "reproduce rnd mutations crossovers gp w =
     do {
       (selected_first_parents, w1) \<leftarrow> sample rnd gp crossovers w;
       (selected_second_parents, w2) \<leftarrow> sample rnd gp crossovers w1;
       (selected_mutations, w3) \<leftarrow> sample rnd gp mutations w2;
       (case mutate_all (Model gp) selected_mutations w3 of (mutated, w4) \<Rightarrow>
          do {
            (crossed, w5) \<leftarrow> crossover_all (Model gp) selected_first_parents
                                selected_second_parents (py_range 0 crossovers) w4;
            Some (gp\<lparr>population := (population gp @ mutated) @ crossed\<rparr>, w5)
          })
     }"

text \<open>Evaluation of the grown population and the truncation (lines 199 to 203).\<close>

definition rank_and_truncate ::
  "('f, 'x, 'y, 'p, 'a, 'w) GeneticProgramClass \<Rightarrow> 'w
    \<Rightarrow> (('f, 'x, 'y, 'p, 'a, 'w) GeneticProgramClass \<times> 'w) option" where
  "rank_and_truncate gp w =
     do {
       (gp1, w1) \<leftarrow> evaluate_population gp None None w;
       s \<leftarrow> sorted_py (population gp1);
       Some (gp1\<lparr>population := py_slice_to s (population_size gp1)\<rparr>, w1)
     }"

text \<open>The body of the loop over the generations.\<close>

definition generation_step ::
  "('w \<Rightarrow> real \<times> 'w) \<Rightarrow> int \<Rightarrow> int \<Rightarrow> int \<Rightarrow> ('f, 'x, 'y, 'p, 'a, 'w) GeneticProgramClass \<Rightarrow> 'w
    \<Rightarrow> (('f, 'x, 'y, 'p, 'a, 'w) GeneticProgramClass \<times> 'w) option" where
  "generation_step rnd mutations crossovers generation gp w =
     do {
       (gp1, w1) \<leftarrow> reproduce rnd mutations crossovers (gp\<lparr>ran_generations := generation\<rparr>) w;
       rank_and_truncate gp1 w1
     }"

fun generations_loop ::
  "('w \<Rightarrow> real \<times> 'w) \<Rightarrow> int \<Rightarrow> int \<Rightarrow> int list \<Rightarrow> ('f, 'x, 'y, 'p, 'a, 'w) GeneticProgramClass \<Rightarrow> 'w
    \<Rightarrow> (('f, 'x, 'y, 'p, 'a, 'w) GeneticProgramClass \<times> 'w) option" where
  "generations_loop rnd mutations crossovers [] gp w = Some (gp, w)"
| "generations_loop rnd mutations crossovers (generation # rest) gp w =
     do {
       (gp1, w1) \<leftarrow> generation_step rnd mutations crossovers generation gp w;
       generations_loop rnd mutations crossovers rest gp1 w1
     }"

text \<open>Lines 147 to 156: the initial population, evaluated and sorted.\<close>

definition initial_population ::
  "('f, 'x, 'y, 'p, 'a, 'w) GeneticProgramClass \<Rightarrow> 'x list \<Rightarrow> 'y list \<Rightarrow> 'w
    \<Rightarrow> (('f, 'x, 'y, 'p, 'a, 'w) GeneticProgramClass \<times> 'w) option" where
  "initial_population gp x y w =
     (let gp0 = gp\<lparr>x_train := x, y_train := y, ran_generations := 0\<rparr>
      in case generate_population (Model gp0) (population_size gp0) w of (fs, w1) \<Rightarrow>
           do {
             (gp1, w2) \<leftarrow> evaluate_population
                             (gp0\<lparr>population := map (\<lambda>individual. IndividualClass_init individual None) fs\<rparr>)
                             None None w1;
             s \<leftarrow> sorted_py (population gp1);
             Some (gp1\<lparr>population := s\<rparr>, w2)
           })"

text \<open>
  \<open>fit\<close> returns the champion; the model returns it with the engine and the world as the
  run left them. Printing and \<open>logs_checkpoint\<close> are reporting and are left out.
\<close>

definition fit ::
  "('w \<Rightarrow> real \<times> 'w) \<Rightarrow> ('f, 'x, 'y, 'p, 'a, 'w) GeneticProgramClass \<Rightarrow> 'x list \<Rightarrow> 'y list \<Rightarrow> 'w
    \<Rightarrow> ('f \<times> ('f, 'x, 'y, 'p, 'a, 'w) GeneticProgramClass \<times> 'w) option" where
  "fit rnd gp x y w =
     do {
       (gp1, w1) \<leftarrow> initial_population gp x y w;
       let mutations = \<lceil>real_of_int (population_size gp1) * mutation_ratio gp1\<rceil>;
       let crossovers = population_size gp1 - mutations;
       (gp2, w2) \<leftarrow> generations_loop rnd mutations crossovers
                       (py_range 1 (generations gp1)) gp1 w1;
       champion \<leftarrow> py_getitem (population gp2) 0;
       Some (fenotype champion, gp2\<lparr>darwin_champion := Some (fenotype champion)\<rparr>, w2)
     }"

section \<open>What the specification says\<close>



















section \<open>Devices of the proofs\<close>

text \<open>
  A sort key in a linear order for the evaluations that \<open>_evaluate_population\<close> hands
  out, and the three shapes a ranked population can have: all evaluations a finite float;
  all a list of a finite raw fitness and a crowding value that is not NaN; or all a list of a
  finite raw fitness and NaN.
\<close>

fun enc :: "xfloat \<Rightarrow> int \<times> real" where
  "enc NInf = (- 1, 0)"
| "enc (Fin r) = (0, r)"
| "enc PInf = (1, 0)"
| "enc NaN = (0, 0)"

fun rank_key :: "eval_value \<Rightarrow> real \<times> int \<times> real" where
  "rank_key (EFloat (Fin r)) = (r, 0, 0)"
| "rank_key (EList [Fin a, c]) = (a, enc c)"
| "rank_key _ = (0, 0, 0)"

definition comparable :: "'f IndividualClass list \<Rightarrow> bool" where
  "comparable pop =
     ((\<forall>ind \<in> set pop. \<exists>r. evaluation ind = EFloat (Fin r))
    \<or> (\<forall>ind \<in> set pop. \<exists>a c. evaluation ind = EList [Fin a, c] \<and> c \<noteq> NaN)
    \<or> (\<forall>ind \<in> set pop. \<exists>a. evaluation ind = EList [Fin a, NaN]))"


text \<open>
  The raw crowding distances are finite or negative infinity, and so is every entry of the
  \<open>distances\<close> dictionary.
\<close>

definition fin_or_ninf :: "xfloat \<Rightarrow> bool" where
  "fin_or_ninf c = (case c of Fin _ \<Rightarrow> True | NInf \<Rightarrow> True | _ \<Rightarrow> False)"

definition dd_ok :: "(nat \<times> xfloat list) list \<Rightarrow> bool" where
  "dd_ok d = (\<forall>(k, ds) \<in> set d. list_all fin_or_ninf ds)"


text \<open>
  One scoring of a fenotype is one call of \<open>Model.evaluate\<close> followed by one call of
  every objective function; \<open>score_all\<close> scores a list of fenotypes in order and gives
  the world they leave. An individual is unset while its \<open>objective_values\<close> is
  \<open>None\<close>. The relations say what a step may change in an individual.
\<close>

definition score ::
  "('f, 'x, 'y, 'p, 'a, 'w) GeneticProgramClass \<Rightarrow> 'x list \<Rightarrow> 'y list \<Rightarrow> 'f \<Rightarrow> 'w
    \<Rightarrow> (real list \<times> 'w) option" where
  "score gp x y f w =
     (case evaluate (Model gp) f x w of (prediction, w1) \<Rightarrow>
        objective_loop (objective_functions gp) 0 (objective_functions_arguments gp) y prediction w1)"

fun score_all ::
  "('f, 'x, 'y, 'p, 'a, 'w) GeneticProgramClass \<Rightarrow> 'x list \<Rightarrow> 'y list \<Rightarrow> 'f list \<Rightarrow> 'w
    \<Rightarrow> 'w option" where
  "score_all gp x y [] w = Some w"
| "score_all gp x y (f # fs) w = do { (vals, w1) \<leftarrow> score gp x y f w; score_all gp x y fs w1 }"

definition unset :: "'f IndividualClass \<Rightarrow> bool" where
  "unset individual = (objective_values individual = None)"

definition scored_from :: "'f IndividualClass \<Rightarrow> 'f IndividualClass \<Rightarrow> bool" where
  "scored_from a b =
     (fenotype b = fenotype a \<and> evaluation b = evaluation a \<and> \<not> unset b
      \<and> (\<not> unset a \<longrightarrow> b = a))"

definition re_ranked :: "'f IndividualClass \<Rightarrow> 'f IndividualClass \<Rightarrow> bool" where
  "re_ranked a b = (fenotype b = fenotype a \<and> objective_values b = objective_values a)"

definition memoized :: "'f IndividualClass \<Rightarrow> 'f IndividualClass \<Rightarrow> bool" where
  "memoized a b =
     (fenotype b = fenotype a \<and> \<not> unset b
      \<and> (\<not> unset a \<longrightarrow> objective_values b = objective_values a))"

definition x_of :: "('f, 'x, 'y, 'p, 'a, 'w) GeneticProgramClass \<Rightarrow> 'x list option \<Rightarrow> 'x list" where
  "x_of gp x = (case x of None \<Rightarrow> x_train gp | Some v \<Rightarrow> v)"

definition y_of :: "('f, 'x, 'y, 'p, 'a, 'w) GeneticProgramClass \<Rightarrow> 'y list option \<Rightarrow> 'y list" where
  "y_of gp y = (case y of None \<Rightarrow> y_train gp | Some v \<Rightarrow> v)"


text \<open>
  A population at a generation boundary: ranked, sorted by its sort key, and with every
  \<open>objective_values\<close> set.
\<close>

definition ranked_sorted :: "'f IndividualClass list \<Rightarrow> bool" where
  "ranked_sorted pop = (comparable pop \<and> sorted (map (\<lambda>ind. rank_key (evaluation ind)) pop))"

definition all_set :: "'f IndividualClass list \<Rightarrow> bool" where
  "all_set pop = list_all (\<lambda>ind. \<not> unset ind) pop"

text \<open>
  \<open>k\<close> selection, reproduction, evaluation and truncation cycles, numbered from 1 as the
  generations of \<open>fit\<close> are.
\<close>

primrec run_cycles ::
  "('w \<Rightarrow> real \<times> 'w) \<Rightarrow> int \<Rightarrow> int \<Rightarrow> nat \<Rightarrow> ('f, 'x, 'y, 'p, 'a, 'w) GeneticProgramClass \<Rightarrow> 'w
    \<Rightarrow> (('f, 'x, 'y, 'p, 'a, 'w) GeneticProgramClass \<times> 'w) option" where
  "run_cycles rnd mutations crossovers 0 gp w = Some (gp, w)"
| "run_cycles rnd mutations crossovers (Suc k) gp w =
     do {
       (gp1, w1) \<leftarrow> run_cycles rnd mutations crossovers k gp w;
       generation_step rnd mutations crossovers (int (Suc k)) gp1 w1
     }"

section \<open>An example engine\<close>

text \<open>
  A small deterministic instance on which the theorems are run: fenotypes are natural
  numbers, the prediction of a fenotype is its value, the only objective returns the
  prediction, the random source always returns 0, and the world counts the calls of
  \<open>Model.evaluate\<close>.
\<close>

definition example_model :: "(nat, unit, real, nat) model_ops" where
  "example_model =
     \<lparr>generate_population = (\<lambda>n w. (take (nat n) [5, 1, 3], w)),
      mutate = (\<lambda>f w. (f + 1, w)),
      crossover = (\<lambda>a b w. (a + b, w)),
      evaluate = (\<lambda>f x w. (real f, Suc w))\<rparr>"

definition example_objective :: "(unit, real, unit, nat) objective_function" where
  "example_objective y prediction args w = (prediction, w)"

definition example_rnd :: "nat \<Rightarrow> real \<times> nat" where
  "example_rnd w = (0, w)"

definition example_gp :: "int \<Rightarrow> real \<Rightarrow> (nat, unit, unit, real, unit, nat) GeneticProgramClass" where
  "example_gp gens ratio =
     \<lparr>population_size = 3, generations = gens, Model = example_model,
      objective_functions = [example_objective], objective_functions_arguments = [[]],
      multiobjective_fitness = ''SPEA2'', sampling_method = ''tournament'',
      mutation_ratio = ratio, tournament_size = 2, experiment_name = ''run'',
      logs_level = 0, objectives = 1, darwin_champion = None, population = [],
      x_train = [], y_train = [], ran_generations = 0\<rparr>"


section \<open>Basic facts\<close>

lemma py_getitem_0_Cons: "py_getitem (x # xs) 0 = Some x"
  by (simp add: py_getitem_def)

lemma py_getitem_nat: "py_getitem xs (int i) = (if i < length xs then Some (xs ! i) else None)"
  by (simp add: py_getitem_def)

section \<open>Construction\<close>

text \<open>
  C9, as the code has it. The constructor checks nothing: whatever the population size,
  the number of generations, the mutation ratio and the tournament size are, an engine is
  returned that stores them unchanged.
\<close>

theorem init_accepts_every_configuration:
  "\<exists>gp. GeneticProgramClass_init ps g M ofs args mf sm mr ts en now = Some gp
      \<and> population_size gp = ps \<and> generations gp = g
      \<and> mutation_ratio gp = mr \<and> tournament_size gp = ts"
  by (simp add: GeneticProgramClass_init_def Let_def)

text \<open>
  C9 as stated fails: a negative population size and number of generations, a mutation
  ratio of 7 and a tournament size of 0 are accepted.
\<close>

theorem init_no_validation_counterexample:
  "GeneticProgramClass_init (- 5) (- 1)
     \<lparr>generate_population = (\<lambda>n w. ([] :: unit list, w :: unit)), mutate = (\<lambda>f w. (f, w)),
      crossover = (\<lambda>a b w. (a, w)), evaluate = (\<lambda>f (x :: unit list) w. ((), w))\<rparr>
     (Inr ([] :: (unit, unit, unit, unit) objective_function list)) None ''SPEA2'' ''tournament'' 7 0 None ''now''
   \<noteq> None"
  by (simp add: GeneticProgramClass_init_def)

section \<open>Tournament selection of size 1\<close>

lemma tournament_loop_one:
  "tournament_loop rnd 1 pop n w = choices_loop rnd pop n w"
proof (induction n arbitrary: w)
  case 0
  show ?case by simp
next
  case (Suc n)
  obtain u w1 where r: "rnd w = (u, w1)" by (cases "rnd w")
  show ?case
  proof (cases "py_getitem pop \<lfloor>u * real (length pop)\<rfloor>")
    case None
    then show ?thesis by (simp add: choices_def r)
  next
    case (Some x)
    then show ?thesis
      by (simp add: choices_def r Suc.IH py_getitem_0_Cons)
  qed
qed

text \<open>
  C8. With a tournament size of 1, tournament selection is the uniform strategy of
  \<open>fit\<close> (\<open>rd.choices(population, k = amount)\<close>): on the same random source it
  returns the same individuals in the same order, leaves the source in the same state and
  fails in the same cases. Being the same function of the random source, the two
  strategies induce the same distribution.
\<close>

theorem tournament_size_one_is_uniform:
  "tournament_selection rnd 1 pop amount w = choices rnd pop amount w"
  by (simp add: tournament_selection_def choices_def tournament_loop_one)


section \<open>Equality of individuals\<close>

lemma eq_loop_zip:
  "eq_loop xs (EList ys) =
     (if \<exists>(a, b) \<in> set (zip xs ys). xne a b then Some False
      else if length xs \<le> length ys then Some True
      else None)"
proof (induction xs arbitrary: ys)
  case Nil
  show ?case by simp
next
  case (Cons x xs)
  show ?case
    by (cases ys) (simp_all add: Cons.IH)
qed

lemma ex_zip_nth:
  "(\<exists>(a, b) \<in> set (zip xs ys). P a b) \<longleftrightarrow>
   (\<exists>i. i < length xs \<and> i < length ys \<and> P (xs ! i) (ys ! i))"
  by (auto simp: set_zip)

text \<open>
  C10, as the code has it. For two list evaluations, \<open>__eq__\<close> compares only the first
  \<open>len(self.evaluation)\<close> components. With equal lengths it is component-wise equality
  (under the float comparison \<open>!=\<close>). With a shorter \<open>self.evaluation\<close> it still
  returns True when all of its components agree with the other's, and with a longer one it
  returns False at the first differing common component and raises IndexError otherwise.
\<close>

theorem Individual_eq_lists:
  assumes "evaluation a = EList xs" and "evaluation b = EList ys"
  shows "(length xs = length ys \<longrightarrow>
            Individual_eq a b = Some (\<forall>i < length xs. \<not> xne (xs ! i) (ys ! i)))
       \<and> (length xs < length ys \<longrightarrow>
            Individual_eq a b = Some (\<forall>i < length xs. \<not> xne (xs ! i) (ys ! i)))
       \<and> (length ys < length xs \<longrightarrow>
            Individual_eq a b =
              (if \<exists>i < length ys. xne (xs ! i) (ys ! i) then Some False else None))"
proof -
  have e: "Individual_eq a b = eq_loop xs (EList ys)"
    using assms by (simp add: Individual_eq_def)
  show ?thesis
    unfolding e eq_loop_zip ex_zip_nth by auto
qed

theorem Individual_eq_lists_witness:
  "Individual_eq \<lparr>fenotype = (), evaluation = EList [Fin 0, Fin 2], objective_values = None\<rparr>
                 \<lparr>fenotype = (), evaluation = EList [Fin 0, Fin 2], objective_values = None\<rparr>
     = Some True
   \<and> Individual_eq \<lparr>fenotype = (), evaluation = EList [Fin 0], objective_values = None\<rparr>
                   \<lparr>fenotype = (), evaluation = EList [Fin 0, Fin 2], objective_values = None\<rparr>
     = Some True
   \<and> Individual_eq \<lparr>fenotype = (), evaluation = EList [Fin 0, Fin 2], objective_values = None\<rparr>
                   \<lparr>fenotype = (), evaluation = EList [Fin 0], objective_values = None\<rparr>
     = None"
  using Individual_eq_lists [of "\<lparr>fenotype = (), evaluation = EList [Fin 0, Fin 2], objective_values = None\<rparr>"
          "[Fin 0, Fin 2]"
          "\<lparr>fenotype = (), evaluation = EList [Fin 0, Fin 2], objective_values = None\<rparr>"
          "[Fin 0, Fin 2]"]
        Individual_eq_lists [of "\<lparr>fenotype = (), evaluation = EList [Fin 0], objective_values = None\<rparr>"
          "[Fin 0]"
          "\<lparr>fenotype = (), evaluation = EList [Fin 0, Fin 2], objective_values = None\<rparr>"
          "[Fin 0, Fin 2]"]
        Individual_eq_lists [of "\<lparr>fenotype = (), evaluation = EList [Fin 0, Fin 2], objective_values = None\<rparr>"
          "[Fin 0, Fin 2]"
          "\<lparr>fenotype = (), evaluation = EList [Fin 0], objective_values = None\<rparr>"
          "[Fin 0]"]
  by (simp add: xne_def less_Suc_eq_0_disj)

text \<open>
  C10 as stated fails: a freshly constructed individual (evaluation \<open>[]\<close>) compares equal
  to one whose evaluation is \<open>[1.0]\<close>, although the lengths differ.
\<close>

theorem Individual_eq_length_counterexample:
  "Individual_eq (IndividualClass_init () None)
                 ((IndividualClass_init () None)\<lparr>evaluation := EList [Fin 1]\<rparr>) = Some True
   \<and> length ([] :: xfloat list) \<noteq> length [Fin 1]"
  by (simp add: Individual_eq_def IndividualClass_init_def)

section \<open>Pareto strength\<close>




















section \<open>Sorting individuals\<close>

lemma xlt_enc: "c \<noteq> NaN \<Longrightarrow> d \<noteq> NaN \<Longrightarrow> xlt c d = (enc c < enc d)"
  by (cases c; cases d) simp_all

lemma comparable_lt:
  assumes "comparable pop" "a \<in> set pop" "b \<in> set pop"
  shows "Individual_lt a b = Some (rank_key (evaluation a) < rank_key (evaluation b))"
proof -
  consider (single) r s where "evaluation a = EFloat (Fin r)" "evaluation b = EFloat (Fin s)"
    | (multi) p c q d where "evaluation a = EList [Fin p, c]" "c \<noteq> NaN"
        "evaluation b = EList [Fin q, d]" "d \<noteq> NaN"
    | (nan) p q where "evaluation a = EList [Fin p, NaN]" "evaluation b = EList [Fin q, NaN]"
    using assms unfolding comparable_def by blast
  then show ?thesis
  proof cases
    case single
    then show ?thesis by (simp add: Individual_lt_def)
  next
    case multi
    then show ?thesis
      using xlt_enc [of c d] xlt_enc [of d c]
      by (auto simp: Individual_lt_def xgt_def)
  next
    case nan
    then show ?thesis by (auto simp: Individual_lt_def xgt_def)
  qed
qed


lemma insort_py_key:
  assumes "\<forall>y \<in> set ys. Individual_lt y x = Some (key y < key x)"
  shows "insort_py x ys = Some (insort_key key x ys)"
  using assms
proof (induction ys)
  case Nil
  show ?case by simp
next
  case (Cons y ys)
  then show ?case by (auto simp: not_less)
qed

lemma sorted_py_key:
  assumes "\<forall>a \<in> set xs. \<forall>b \<in> set xs. Individual_lt a b = Some (key a < key b)"
  shows "sorted_py xs = Some (sort_key key xs)"
  using assms
proof (induction xs)
  case Nil
  show ?case by simp
next
  case (Cons x xs)
  have ih: "sorted_py xs = Some (sort_key key xs)"
    using Cons by simp
  have "insort_py x (sort_key key xs) = Some (insort_key key x (sort_key key xs))"
    by (rule insort_py_key) (use Cons.prems in simp)
  then show ?case
    by (simp add: ih)
qed

lemma sorted_py_comparable:
  assumes "comparable pop"
  shows "sorted_py pop = Some (sort_key (\<lambda>ind. rank_key (evaluation ind)) pop)"
  by (rule sorted_py_key) (use comparable_lt [OF assms] in blast)

lemma insort_py_length: "insort_py x ys = Some r \<Longrightarrow> length r = Suc (length ys)"
  by (induction ys arbitrary: r) (auto split: bind_splits if_splits)

lemma sorted_py_length: "sorted_py xs = Some r \<Longrightarrow> length r = length xs"
  by (induction xs arbitrary: r) (auto split: bind_splits dest: insort_py_length)

lemma insort_py_set: "insort_py x ys = Some r \<Longrightarrow> set r = insert x (set ys)"
proof (induction ys arbitrary: r)
  case Nil
  then show ?case by auto
next
  case (Cons y ys)
  obtain b where b: "Individual_lt y x = Some b"
    using Cons.prems by (cases "Individual_lt y x") simp_all
  show ?case
  proof (cases b)
    case True
    then obtain r' where r': "insort_py x ys = Some r'" "r = y # r'"
      using Cons.prems b by (cases "insort_py x ys") simp_all
    show ?thesis
      using Cons.IH [OF r'(1)] r'(2) by auto
  next
    case False
    then have "r = x # y # ys"
      using Cons.prems b by simp
    then show ?thesis by auto
  qed
qed

lemma sorted_py_set: "sorted_py xs = Some r \<Longrightarrow> set r = set xs"
proof (induction xs arbitrary: r)
  case Nil
  then show ?case by simp
next
  case (Cons x xs)
  obtain r' where r': "sorted_py xs = Some r'" "insort_py x r' = Some r"
    using Cons.prems by (cases "sorted_py xs") simp_all
  show ?case
    using Cons.IH [OF r'(1)] insort_py_set [OF r'(2)] by simp
qed

section \<open>The values of the crowding distance\<close>

lemma xadd_fin_or_ninf: "fin_or_ninf a \<Longrightarrow> fin_or_ninf b \<Longrightarrow> fin_or_ninf (xadd a b)"
  by (cases a; cases b) (simp_all add: fin_or_ninf_def)

lemma foldl_xadd_fin_or_ninf:
  "fin_or_ninf a \<Longrightarrow> list_all fin_or_ninf ds \<Longrightarrow> fin_or_ninf (foldl xadd a ds)"
  by (induction ds arbitrary: a) (simp_all add: xadd_fin_or_ninf)

lemma py_sum_fin_or_ninf: "list_all fin_or_ninf ds \<Longrightarrow> fin_or_ninf (py_sum ds)"
  unfolding py_sum_def by (rule foldl_xadd_fin_or_ninf) (simp_all add: fin_or_ninf_def)

lemma xdiv_len_fin_or_ninf: "fin_or_ninf a \<Longrightarrow> xdiv_len a n = Some m \<Longrightarrow> fin_or_ninf m"
  by (cases a; cases n) (auto simp: fin_or_ninf_def)

lemma set_update_cases:
  "(k', v') \<in> set (AList.update k v d) \<Longrightarrow> (k', v') \<in> set d \<or> (k', v') = (k, v)"
  by (induction d) (auto split: if_splits)

lemma dd_append_ok:
  assumes "dd_ok d" "fin_or_ninf v"
  shows "dd_ok (dd_append k v d)"
proof -
  have old: "list_all fin_or_ninf (case map_of d k of None \<Rightarrow> [] | Some ds \<Rightarrow> ds)"
  proof (cases "map_of d k")
    case None
    then show ?thesis by simp
  next
    case (Some ds)
    then have "(k, ds) \<in> set d" by (rule map_of_SomeD)
    then show ?thesis using assms(1) Some by (auto simp: dd_ok_def)
  qed
  show ?thesis
    unfolding dd_ok_def dd_append_def
  proof (intro ballI, clarify)
    fix k' ds'
    assume "(k', ds') \<in> set (AList.update k ((case map_of d k of None \<Rightarrow> [] | Some ds \<Rightarrow> ds) @ [v]) d)"
    then consider "(k', ds') \<in> set d"
      | "ds' = (case map_of d k of None \<Rightarrow> [] | Some ds \<Rightarrow> ds) @ [v]"
      using set_update_cases by fastforce
    then show "list_all fin_or_ninf ds'"
    proof cases
      case 1
      then show ?thesis using assms(1) by (auto simp: dd_ok_def)
    next
      case 2
      then show ?thesis using old assms(2) by simp
    qed
  qed
qed

lemma fold_dd_append_ok:
  assumes "dd_ok d" "\<And>i. fin_or_ninf (v i)"
  shows "dd_ok (fold (\<lambda>i d. dd_append (k i) (v i) d) is d)"
  using assms(1) by (induction "is" arbitrary: d) (simp_all add: dd_append_ok assms(2))

lemma crowding_step_ok:
  assumes "crowding_step obj (items, d) = Some (items', d')" "dd_ok d"
  shows "dd_ok d'"
proof -
  let ?s = "sort_key (\<lambda>item. fst item ! obj) items"
  obtain first lst where
    d': "d' = fold (\<lambda>i d. dd_append (snd (?s ! i))
                (Fin (fst (?s ! (i + 1)) ! obj - fst (?s ! (i - 1)) ! obj)) d)
              [1..<length ?s - 1] (dd_append (snd lst) NInf (dd_append (snd first) NInf d))"
    using assms(1) by (auto simp: crowding_step_def Let_def split: bind_splits)
  have "dd_ok (dd_append (snd lst) NInf (dd_append (snd first) NInf d))"
    by (intro dd_append_ok assms(2)) (simp_all add: fin_or_ninf_def)
  then show ?thesis
    unfolding d' by (rule fold_dd_append_ok) (simp add: fin_or_ninf_def)
qed

lemma crowding_loop_ok:
  assumes "crowding_loop os (items, d) = Some (items', d')" "dd_ok d"
  shows "dd_ok d'"
  using assms
proof (induction os arbitrary: items d)
  case Nil
  then show ?case by simp
next
  case (Cons obj os)
  obtain items1 d1 where s: "crowding_step obj (items, d) = Some (items1, d1)"
    and l: "crowding_loop os (items1, d1) = Some (items', d')"
    using Cons.prems(1) by (cases "crowding_step obj (items, d)") auto
  show ?case
    using Cons.IH [OF l] crowding_step_ok [OF s Cons.prems(2)] by simp
qed

lemma mean_distances_ok:
  assumes "mean_distances d n = Some imd" "dd_ok d"
  shows "\<forall>(i, m) \<in> set imd. fin_or_ninf m"
  using assms
proof (induction d arbitrary: imd)
  case Nil
  then show ?case by simp
next
  case (Cons p d)
  obtain i ds where p: "p = (i, ds)" by (cases p)
  obtain m r where m: "xdiv_len (py_sum ds) n = Some m"
    and r: "mean_distances d n = Some r" and imd: "imd = (i, m) # r"
    using Cons.prems(1) unfolding p by (auto split: bind_splits)
  have "fin_or_ninf m"
    using xdiv_len_fin_or_ninf [OF _ m] py_sum_fin_or_ninf [of ds] Cons.prems(2)
    by (simp add: dd_ok_def p)
  moreover have "\<forall>(i, m) \<in> set r. fin_or_ninf m"
    using Cons.IH [OF r] Cons.prems(2) by (simp add: dd_ok_def)
  ultimately show ?case by (simp add: imd)
qed

lemma foldl_max_mem:
  "foldl (\<lambda>m y. if xgt y m then y else m) x xs \<in> set (x # xs)"
  by (induction xs arbitrary: x) auto

lemma xlt_trans_fin_or_ninf:
  "xlt a b \<Longrightarrow> xlt b c \<Longrightarrow> xlt a c"
  by (cases a; cases b; cases c) simp_all

lemma xlt_total_fin_or_ninf:
  "fin_or_ninf a \<Longrightarrow> fin_or_ninf b \<Longrightarrow> xlt a b \<or> a = b \<or> xlt b a"
  by (cases a; cases b) (auto simp: fin_or_ninf_def)

lemma foldl_max_ge_start:
  "list_all fin_or_ninf (x # xs) \<Longrightarrow>
   \<not> xlt (foldl (\<lambda>m y. if xgt y m then y else m) x xs) x"
proof (induction xs arbitrary: x)
  case Nil
  then show ?case by (cases x) simp_all
next
  case (Cons y ys)
  show ?case
  proof (cases "xgt y x")
    case True
    have "\<not> xlt (foldl (\<lambda>m y. if xgt y m then y else m) y ys) y"
      using Cons.IH [of y] Cons.prems by simp
    then have "\<not> xlt (foldl (\<lambda>m y. if xgt y m then y else m) y ys) x"
      using True xlt_trans_fin_or_ninf unfolding xgt_def by blast
    then show ?thesis using True by simp
  next
    case False
    then show ?thesis using Cons.IH [of x] Cons.prems by simp
  qed
qed

lemma foldl_max_upper:
  "list_all fin_or_ninf (x # xs) \<Longrightarrow> c \<in> set (x # xs) \<Longrightarrow>
   \<not> xlt (foldl (\<lambda>m y. if xgt y m then y else m) x xs) c"
proof (induction xs arbitrary: x)
  case Nil
  then show ?case by (cases x) simp_all
next
  case (Cons y ys)
  let ?x' = "if xgt y x then y else x"
  have fold: "foldl (\<lambda>m y. if xgt y m then y else m) x (y # ys)
            = foldl (\<lambda>m y. if xgt y m then y else m) ?x' ys"
    by simp
  have ok: "list_all fin_or_ninf (?x' # ys)"
    using Cons.prems(1) by simp
  consider "c \<in> set (?x' # ys)" | "c = x" "xgt y x" | "c = y" "\<not> xgt y x"
    using Cons.prems(2) by (cases "xgt y x") auto
  then show ?case
  proof cases
    case 1
    then show ?thesis unfolding fold using Cons.IH [OF ok] by blast
  next
    case 2
    have "\<not> xlt (foldl (\<lambda>m y. if xgt y m then y else m) y ys) y"
      using foldl_max_ge_start [of y ys] Cons.prems(1) by simp
    then have "\<not> xlt (foldl (\<lambda>m y. if xgt y m then y else m) y ys) x"
      using 2 xlt_trans_fin_or_ninf unfolding xgt_def by blast
    then show ?thesis using 2 by simp
  next
    case 3
    have fx: "fin_or_ninf x" "fin_or_ninf y" using Cons.prems(1) by simp_all
    have n: "\<not> xlt (foldl (\<lambda>m y. if xgt y m then y else m) x ys) x"
      using foldl_max_ge_start [of x ys] Cons.prems(1) by simp
    have "\<not> xlt x y" using 3 by (simp add: xgt_def)
    then have "y = x \<or> xlt y x" using xlt_total_fin_or_ninf [OF fx] by blast
    then have "\<not> xlt (foldl (\<lambda>m y. if xgt y m then y else m) x ys) y"
      using n xlt_trans_fin_or_ninf by blast
    then show ?thesis using 3 by simp
  qed
qed

lemma py_max_props:
  assumes "py_max cds = Some m" "list_all fin_or_ninf cds"
  shows "m \<in> set cds \<and> (\<forall>c \<in> set cds. \<not> xlt m c)"
proof (cases cds)
  case Nil
  then show ?thesis using assms(1) by simp
next
  case (Cons x xs)
  have m: "m = foldl (\<lambda>m y. if xgt y m then y else m) x xs"
    using assms(1) Cons by simp
  show ?thesis
    unfolding m Cons
    using foldl_max_mem [of x xs] foldl_max_upper [of x xs] assms(2) Cons by blast
qed

lemma inverted_all_or_none_nan:
  assumes "py_max cds = Some m" "list_all fin_or_ninf cds"
  shows "(\<forall>c \<in> set (map (\<lambda>cd. xsub m cd) cds). c = NaN)
       \<or> (\<forall>c \<in> set (map (\<lambda>cd. xsub m cd) cds). c \<noteq> NaN)"
proof -
  have mem: "m \<in> set cds" and up: "\<forall>c \<in> set cds. \<not> xlt m c"
    using py_max_props [OF assms] by simp_all
  have fm: "fin_or_ninf m"
    using mem assms(2) by (simp add: list_all_iff)
  show ?thesis
  proof (cases m)
    case (Fin r)
    have "\<forall>c \<in> set cds. xsub m c \<noteq> NaN"
    proof
      fix c assume "c \<in> set cds"
      then have "fin_or_ninf c" using assms(2) by (simp add: list_all_iff)
      then show "xsub m c \<noteq> NaN"
        unfolding Fin by (cases c) (simp_all add: xsub_def fin_or_ninf_def)
    qed
    then show ?thesis by simp
  next
    case NInf
    have "\<forall>c \<in> set cds. xsub m c = NaN"
    proof
      fix c assume c: "c \<in> set cds"
      then have "fin_or_ninf c" using assms(2) by (simp add: list_all_iff)
      moreover have "\<not> xlt NInf c" using up c NInf by simp
      ultimately show "xsub m c = NaN"
        unfolding NInf by (cases c) (simp_all add: xsub_def fin_or_ninf_def)
    qed
    then show ?thesis by simp
  next
    case PInf
    then show ?thesis using fm by (simp add: fin_or_ninf_def)
  next
    case NaN
    then show ?thesis using fm by (simp add: fin_or_ninf_def)
  qed
qed

lemma crowding_distance_all_or_none_nan:
  assumes "crowding_distance ov = Some cds"
  shows "(\<forall>c \<in> set cds. c = NaN) \<or> (\<forall>c \<in> set cds. c \<noteq> NaN)"
proof -
  obtain first where f: "py_getitem ov 0 = Some first"
    using assms by (cases "py_getitem ov 0") (simp_all add: crowding_distance_def)
  obtain items d where
    l: "crowding_loop [0..<length ov] (make_items ov (length first), []) = Some (items, d)"
    using assms f
    by (cases "crowding_loop [0..<length ov] (make_items ov (length first), [])")
       (auto simp: crowding_distance_def)
  obtain imd where md: "mean_distances d (length ov) = Some imd"
    using assms f l
    by (cases "mean_distances d (length ov)") (simp_all add: crowding_distance_def)
  obtain m where mx: "py_max (map snd (sort_key fst imd)) = Some m"
    using assms f l md
    by (cases "py_max (map snd (sort_key fst imd))") (simp_all add: crowding_distance_def)
  have cds: "cds = map (\<lambda>cd. xsub m cd) (map snd (sort_key fst imd))"
    using assms f l md mx by (simp add: crowding_distance_def)
  have "dd_ok d"
    using crowding_loop_ok [OF l] by (simp add: dd_ok_def)
  then have "\<forall>(i, m) \<in> set imd. fin_or_ninf m"
    using mean_distances_ok [OF md] by simp
  then have "list_all fin_or_ninf (map snd (sort_key fst imd))"
    by (auto simp: list_all_iff)
  then show ?thesis
    unfolding cds by (rule inverted_all_or_none_nan [OF mx])
qed

section \<open>The evaluation of a population\<close>

lemma compute_objectives_props:
  assumes "compute_objectives gp x y pop w = Some (pop', w')"
  shows "list_all2 scored_from pop pop'
       \<and> score_all gp x y (map fenotype (filter unset pop)) w = Some w'"
  using assms
proof (induction pop arbitrary: w pop')
  case Nil
  then show ?case by simp
next
  case (Cons ind pop)
  show ?case
  proof (cases "objective_values ind")
    case None
    obtain p w1 where e: "evaluate (Model gp) (fenotype ind) x w = (p, w1)"
      by (cases "evaluate (Model gp) (fenotype ind) x w")
    obtain vals w2 where o: "objective_loop (objective_functions gp) 0
        (objective_functions_arguments gp) y p w1 = Some (vals, w2)"
      using Cons.prems None e
      by (cases "objective_loop (objective_functions gp) 0
        (objective_functions_arguments gp) y p w1") auto
    obtain rest1 where r: "compute_objectives gp x y pop w2 = Some (rest1, w')"
      and p': "pop' = ind\<lparr>objective_values := Some vals\<rparr> # rest1"
      using Cons.prems None e o
      by (cases "compute_objectives gp x y pop w2") auto
    have s: "score gp x y (fenotype ind) w = Some (vals, w2)"
      by (simp add: score_def e o)
    show ?thesis
      using Cons.IH [OF r] None s
      by (simp add: p' scored_from_def unset_def)
  next
    case (Some v)
    obtain rest1 where r: "compute_objectives gp x y pop w = Some (rest1, w')"
      and p': "pop' = ind # rest1"
      using Cons.prems Some
      by (cases "compute_objectives gp x y pop w") auto
    show ?thesis
      using Cons.IH [OF r] Some
      by (simp add: p' scored_from_def unset_def)
  qed
qed

lemma single_objective_evaluations_props:
  assumes "single_objective_evaluations pop = Some pop'"
  shows "list_all2 (\<lambda>a b. \<exists>v. b = a\<lparr>evaluation := EFloat (Fin v)\<rparr>) pop pop'"
  using assms
proof (induction pop arbitrary: pop')
  case Nil
  then show ?case by simp
next
  case (Cons ind pop)
  obtain vals where v: "objective_values ind = Some vals"
    using Cons.prems by (cases "objective_values ind") simp_all
  obtain v0 where v0: "py_getitem vals 0 = Some v0"
    using Cons.prems v by (cases "py_getitem vals 0") simp_all
  obtain rest1 where r: "single_objective_evaluations pop = Some rest1"
    and p': "pop' = ind\<lparr>evaluation := EFloat (Fin v0)\<rparr> # rest1"
    using Cons.prems v v0 by (cases "single_objective_evaluations pop") simp_all
  show ?case
    using Cons.IH [OF r] by (auto simp: p')
qed

lemma assign_evaluations_props:
  assumes "assign_evaluations pop k evs = Some pop'"
  shows "length pop' = length pop
       \<and> (\<forall>i < length pop. k + i < length evs
            \<and> pop' ! i = (pop ! i)\<lparr>evaluation := EList [Fin (real_of_int (evs ! (k + i)))]\<rparr>)"
  using assms
proof (induction pop arbitrary: k pop')
  case Nil
  then show ?case by simp
next
  case (Cons ind pop)
  obtain e where e: "py_getitem evs (int k) = Some e"
    using Cons.prems by (cases "py_getitem evs (int k)") simp_all
  then have k: "k < length evs" and ek: "e = evs ! k"
    by (simp_all add: py_getitem_nat split: if_splits)
  obtain rest1 where r: "assign_evaluations pop (Suc k) evs = Some rest1"
    and p': "pop' = ind\<lparr>evaluation := EList [Fin (real_of_int e)]\<rparr> # rest1"
    using Cons.prems e by (cases "assign_evaluations pop (Suc k) evs") simp_all
  have ih: "length rest1 = length pop"
    "\<And>j. j < length pop \<Longrightarrow> Suc k + j < length evs
        \<and> rest1 ! j = (pop ! j)\<lparr>evaluation := EList [Fin (real_of_int (evs ! (Suc k + j)))]\<rparr>"
    using Cons.IH [OF r] by simp_all
  have "k + i < length evs
      \<and> pop' ! i = ((ind # pop) ! i)\<lparr>evaluation := EList [Fin (real_of_int (evs ! (k + i)))]\<rparr>"
    if "i < length (ind # pop)" for i
  proof (cases i)
    case 0
    then show ?thesis using k ek by (simp add: p')
  next
    case (Suc j)
    then show ?thesis using ih(2) [of j] that by (simp add: p')
  qed
  then show ?case
    using ih(1) by (simp add: p')
qed

lemma append_crowding_props:
  assumes "append_crowding pop k cds = Some pop'"
  shows "length pop' = length pop
       \<and> (\<forall>i < length pop. k + i < length cds
            \<and> (\<exists>es. evaluation (pop ! i) = EList es
                 \<and> pop' ! i = (pop ! i)\<lparr>evaluation := EList (es @ [cds ! (k + i)])\<rparr>))"
  using assms
proof (induction pop arbitrary: k pop')
  case Nil
  then show ?case by simp
next
  case (Cons ind pop)
  obtain cd where cd: "py_getitem cds (int k) = Some cd"
    using Cons.prems by (cases "py_getitem cds (int k)") simp_all
  then have k: "k < length cds" and ck: "cd = cds ! k"
    by (simp_all add: py_getitem_nat split: if_splits)
  obtain es where es: "evaluation ind = EList es"
    using Cons.prems cd by (cases "evaluation ind") simp_all
  obtain rest1 where r: "append_crowding pop (Suc k) cds = Some rest1"
    and p': "pop' = ind\<lparr>evaluation := EList (es @ [cd])\<rparr> # rest1"
    using Cons.prems cd es by (cases "append_crowding pop (Suc k) cds") simp_all
  have ih: "length rest1 = length pop"
    "\<And>j. j < length pop \<Longrightarrow> Suc k + j < length cds
        \<and> (\<exists>es. evaluation (pop ! j) = EList es
             \<and> rest1 ! j = (pop ! j)\<lparr>evaluation := EList (es @ [cds ! (Suc k + j)])\<rparr>)"
    using Cons.IH [OF r] by simp_all
  have "k + i < length cds
      \<and> (\<exists>es. evaluation ((ind # pop) ! i) = EList es
           \<and> pop' ! i = ((ind # pop) ! i)\<lparr>evaluation := EList (es @ [cds ! (k + i)])\<rparr>)"
    if "i < length (ind # pop)" for i
  proof (cases i)
    case 0
    then show ?thesis using k ck es by (simp add: p')
  next
    case (Suc j)
    then show ?thesis using ih(2) [of j] that by (simp add: p')
  qed
  then show ?case
    using ih(1) by (simp add: p')
qed

lemma multi_objective_evaluations_cases:
  assumes "multi_objective_evaluations objs pop1 = Some pop3"
  obtains ov evs pop2 cds where
      "objective_matrix pop1 [0..<objs] = Some ov"
      "spea2 objs ov = Some evs"
      "assign_evaluations pop1 0 evs = Some pop2"
      "colored_plot ov evs = Some ()"
      "crowding_distance ov = Some cds"
      "append_crowding pop2 0 cds = Some pop3"
proof -
  note a = assms [unfolded multi_objective_evaluations_def]
  obtain ov where ov: "objective_matrix pop1 [0..<objs] = Some ov"
    using a by (cases "objective_matrix pop1 [0..<objs]") simp_all
  obtain evs where evs: "spea2 objs ov = Some evs"
    using a ov by (cases "spea2 objs ov") simp_all
  obtain pop2 where p2: "assign_evaluations pop1 0 evs = Some pop2"
    using a ov evs by (cases "assign_evaluations pop1 0 evs") simp_all
  have cp: "colored_plot ov evs = Some ()"
    using a ov evs p2 by (cases "colored_plot ov evs") simp_all
  obtain cds where cds: "crowding_distance ov = Some cds"
    using a ov evs p2 cp by (cases "crowding_distance ov") simp_all
  have p3: "append_crowding pop2 0 cds = Some pop3"
    using a ov evs p2 cp cds by simp
  show thesis
    by (rule that [OF ov evs p2 cp cds p3])
qed

lemma multi_evaluations:
  assumes "assign_evaluations pop1 0 evs = Some pop2" "append_crowding pop2 0 cds = Some pop3"
  shows "length pop3 = length pop1
       \<and> (\<forall>i < length pop1. i < length evs \<and> i < length cds
            \<and> pop3 ! i = (pop1 ! i)\<lparr>evaluation := EList [Fin (real_of_int (evs ! i)), cds ! i]\<rparr>)"
proof -
  have l2: "length pop2 = length pop1"
    and a: "\<And>i. i < length pop1 \<Longrightarrow> i < length evs
        \<and> pop2 ! i = (pop1 ! i)\<lparr>evaluation := EList [Fin (real_of_int (evs ! i))]\<rparr>"
    using assign_evaluations_props [OF assms(1)] by simp_all
  have l3: "length pop3 = length pop2"
    and b: "\<And>i. i < length pop2 \<Longrightarrow> i < length cds
        \<and> (\<exists>es. evaluation (pop2 ! i) = EList es
             \<and> pop3 ! i = (pop2 ! i)\<lparr>evaluation := EList (es @ [cds ! i])\<rparr>)"
    using append_crowding_props [OF assms(2)] by simp_all
  have "i < length evs \<and> i < length cds
      \<and> pop3 ! i = (pop1 ! i)\<lparr>evaluation := EList [Fin (real_of_int (evs ! i)), cds ! i]\<rparr>"
    if "i < length pop1" for i
    using a [OF that] b [of i] that l2 by auto
  then show ?thesis using l2 l3 by simp
qed

lemma single_objective_evaluations_ranked:
  assumes "single_objective_evaluations pop1 = Some pop2"
  shows "comparable pop2 \<and> list_all2 re_ranked pop1 pop2"
proof -
  have s: "list_all2 (\<lambda>a b. \<exists>v. b = a\<lparr>evaluation := EFloat (Fin v)\<rparr>) pop1 pop2"
    by (rule single_objective_evaluations_props [OF assms])
  have "\<forall>ind \<in> set pop2. \<exists>r. evaluation ind = EFloat (Fin r)"
  proof
    fix ind assume "ind \<in> set pop2"
    then obtain i where i: "i < length pop2" "ind = pop2 ! i"
      by (auto simp: in_set_conv_nth)
    then obtain v where "pop2 ! i = (pop1 ! i)\<lparr>evaluation := EFloat (Fin v)\<rparr>"
      using s unfolding list_all2_conv_all_nth by auto
    then show "\<exists>r. evaluation ind = EFloat (Fin r)"
      using i(2) by simp
  qed
  then have "comparable pop2" by (simp add: comparable_def)
  moreover have "list_all2 re_ranked pop1 pop2"
    by (rule list_all2_mono [OF s]) (auto simp: re_ranked_def)
  ultimately show ?thesis by simp
qed

lemma multi_objective_evaluations_ranked:
  assumes "multi_objective_evaluations objs pop1 = Some pop3"
  shows "comparable pop3 \<and> list_all2 re_ranked pop1 pop3"
  using assms
proof (cases rule: multi_objective_evaluations_cases)
  case (1 ov evs pop2 cds)
  have l: "length pop3 = length pop1"
    and e: "\<And>i. i < length pop1 \<Longrightarrow> i < length cds
        \<and> pop3 ! i = (pop1 ! i)\<lparr>evaluation := EList [Fin (real_of_int (evs ! i)), cds ! i]\<rparr>"
    using multi_evaluations [OF 1(3,6)] by simp_all
  have r: "list_all2 re_ranked pop1 pop3"
    unfolding list_all2_conv_all_nth using l e by (simp add: re_ranked_def)
  have nan: "(\<forall>c \<in> set cds. c = NaN) \<or> (\<forall>c \<in> set cds. c \<noteq> NaN)"
    by (rule crowding_distance_all_or_none_nan [OF 1(5)])
  have shape: "\<exists>a. evaluation ind = EList [Fin a, cds ! i] \<and> i < length cds"
    if "i < length pop3" "ind = pop3 ! i" for i ind
    using e [of i] that l by simp
  have "comparable pop3"
  proof (cases "\<forall>c \<in> set cds. c = NaN")
    case True
    have "\<forall>ind \<in> set pop3. \<exists>a. evaluation ind = EList [Fin a, NaN]"
    proof
      fix ind assume "ind \<in> set pop3"
      then obtain i where i: "i < length pop3" "ind = pop3 ! i"
        by (auto simp: in_set_conv_nth)
      then obtain a where a: "evaluation ind = EList [Fin a, cds ! i]" "i < length cds"
        using shape [OF i] by blast
      have "cds ! i = NaN"
        using True nth_mem [OF a(2)] by blast
      then show "\<exists>a. evaluation ind = EList [Fin a, NaN]"
        using a(1) by simp
    qed
    then show ?thesis by (simp add: comparable_def)
  next
    case False
    then have nn: "\<forall>c \<in> set cds. c \<noteq> NaN" using nan by blast
    have "\<forall>ind \<in> set pop3. \<exists>a c. evaluation ind = EList [Fin a, c] \<and> c \<noteq> NaN"
    proof
      fix ind assume "ind \<in> set pop3"
      then obtain i where i: "i < length pop3" "ind = pop3 ! i"
        by (auto simp: in_set_conv_nth)
      then obtain a where a: "evaluation ind = EList [Fin a, cds ! i]" "i < length cds"
        using shape [OF i] by blast
      have "cds ! i \<noteq> NaN"
        using nn nth_mem [OF a(2)] by blast
      then show "\<exists>a c. evaluation ind = EList [Fin a, c] \<and> c \<noteq> NaN"
        using a(1) by simp
    qed
    then show ?thesis by (simp add: comparable_def)
  qed
  then show ?thesis using r by simp
qed

lemma assign_fitness_ranked:
  assumes "assign_fitness gp pop1 = Some pop2"
  shows "comparable pop2 \<and> list_all2 re_ranked pop1 pop2"
proof (cases "objectives gp = 1")
  case True
  then show ?thesis
    using assms single_objective_evaluations_ranked by (simp add: assign_fitness_def)
next
  case False
  then have "multi_objective_evaluations (objectives gp) pop1 = Some pop2"
    using assms by (simp add: assign_fitness_def split: if_splits)
  then show ?thesis by (rule multi_objective_evaluations_ranked)
qed

lemma evaluate_population_cases:
  assumes "evaluate_population gp x y w = Some (gp', w')"
  obtains pop1 pop2 where
    "compute_objectives gp (x_of gp x) (y_of gp y) (population gp) w = Some (pop1, w')"
    "assign_fitness gp pop1 = Some pop2"
    "gp' = gp\<lparr>population := pop2\<rparr>"
proof -
  note a = assms [unfolded evaluate_population_def Let_def, folded x_of_def y_of_def]
  obtain pop1 w1 where
    c: "compute_objectives gp (x_of gp x) (y_of gp y) (population gp) w = Some (pop1, w1)"
    using a by (cases "compute_objectives gp (x_of gp x) (y_of gp y) (population gp) w") auto
  obtain pop2 where f: "assign_fitness gp pop1 = Some pop2"
    using a c by (cases "assign_fitness gp pop1") simp_all
  have "gp' = gp\<lparr>population := pop2\<rparr>" "w' = w1"
    using a c f by simp_all
  then show thesis
    using that [of pop1 pop2] c f by simp
qed

lemma evaluate_population_props:
  assumes "evaluate_population gp x y w = Some (gp', w')"
  shows "\<exists>pop'. gp' = gp\<lparr>population := pop'\<rparr> \<and> comparable pop'
       \<and> list_all2 memoized (population gp) pop'
       \<and> score_all gp (x_of gp x) (y_of gp y) (map fenotype (filter unset (population gp))) w = Some w'"
  using assms
proof (cases rule: evaluate_population_cases)
  case (1 pop1 pop2)
  have c: "list_all2 scored_from (population gp) pop1"
    and sc: "score_all gp (x_of gp x) (y_of gp y) (map fenotype (filter unset (population gp))) w = Some w'"
    using compute_objectives_props [OF 1(1)] by simp_all
  have cmp: "comparable pop2" and r: "list_all2 re_ranked pop1 pop2"
    using assign_fitness_ranked [OF 1(2)] by simp_all
  have m: "list_all2 memoized (population gp) pop2"
    by (rule list_all2_trans [OF _ c r]) (simp add: scored_from_def memoized_def re_ranked_def unset_def)
  show ?thesis
    by (intro exI [of _ pop2] conjI 1(3) cmp m sc)
qed

section \<open>Selection and reproduction\<close>

lemma choices_loop_length:
  "choices_loop rnd pop k w = Some (xs, w') \<Longrightarrow> length xs = k"
proof (induction k arbitrary: w xs)
  case 0
  then show ?case by simp
next
  case (Suc k)
  obtain u w1 where r: "rnd w = (u, w1)" by (cases "rnd w")
  obtain x where x: "py_getitem pop \<lfloor>u * real (length pop)\<rfloor> = Some x"
    using Suc.prems r by (cases "py_getitem pop \<lfloor>u * real (length pop)\<rfloor>") simp_all
  obtain ys where ys: "choices_loop rnd pop k w1 = Some (ys, w')" and xs: "xs = x # ys"
    using Suc.prems r x by (cases "choices_loop rnd pop k w1") auto
  show ?case using Suc.IH [OF ys] xs by simp
qed

lemma choices_length: "choices rnd pop k w = Some (xs, w') \<Longrightarrow> length xs = nat k"
  unfolding choices_def by (rule choices_loop_length)

lemma tournament_loop_length:
  "tournament_loop rnd tsize pop n w = Some (xs, w') \<Longrightarrow> length xs = n"
proof (induction n arbitrary: w xs)
  case 0
  then show ?case by simp
next
  case (Suc n)
  obtain competitors w1 where c: "choices rnd pop tsize w = Some (competitors, w1)"
    using Suc.prems by (cases "choices rnd pop tsize w") auto
  obtain s where s: "sorted_py competitors = Some s"
    using Suc.prems c by (cases "sorted_py competitors") simp_all
  obtain winner where wi: "py_getitem s 0 = Some winner"
    using Suc.prems c s by (cases "py_getitem s 0") simp_all
  obtain ys where ys: "tournament_loop rnd tsize pop n w1 = Some (ys, w')" and xs: "xs = winner # ys"
    using Suc.prems c s wi by (cases "tournament_loop rnd tsize pop n w1") auto
  show ?case using Suc.IH [OF ys] xs by simp
qed

lemma weighted_loop_length:
  "weighted_loop rnd pop cum tot k w = Some (xs, w') \<Longrightarrow> length xs = k"
proof (induction k arbitrary: w xs)
  case 0
  then show ?case by simp
next
  case (Suc k)
  obtain u w1 where r: "rnd w = (u, w1)" by (cases "rnd w")
  obtain x where x: "py_getitem pop (int (bisect cum (u * tot) 0 (length pop - 1))) = Some x"
    using Suc.prems r
    by (cases "py_getitem pop (int (bisect cum (u * tot) 0 (length pop - 1)))") simp_all
  obtain ys where ys: "weighted_loop rnd pop cum tot k w1 = Some (ys, w')" and xs: "xs = x # ys"
    using Suc.prems r x by (cases "weighted_loop rnd pop cum tot k w1") auto
  show ?case using Suc.IH [OF ys] xs by simp
qed

lemma choices_weighted_length:
  assumes "choices_weighted rnd pop weights k w = Some (xs, w')"
  shows "length xs = nat k"
proof -
  note a = assms [unfolded choices_weighted_def Let_def]
  have l: "length (accumulate 0 weights) = length pop"
    using a by (simp split: if_splits)
  obtain tot where t: "py_getitem (accumulate 0 weights) (- 1) = Some tot"
    using a l by (cases "py_getitem (accumulate 0 weights) (- 1)") simp_all
  have "weighted_loop rnd pop (accumulate 0 weights) tot (nat k) w = Some (xs, w')"
    using a l t by (simp split: if_splits)
  then show ?thesis by (rule weighted_loop_length)
qed

lemma weighted_random_sample_length:
  assumes "weighted_random_sample rnd pop amount probabilities w = Some (xs, w')"
  shows "length xs = nat amount"
proof -
  note a = assms [unfolded weighted_random_sample_def Let_def]
  obtain s where s: "sorted_py pop = Some s"
    using a by (cases "sorted_py pop") simp_all
  show ?thesis
    using a s choices_weighted_length by simp
qed

lemma sample_length:
  assumes "sample rnd gp amount w = Some (xs, w')"
  shows "length xs = nat amount"
proof -
  consider "tournament_selection rnd (tournament_size gp) (population gp) amount w = Some (xs, w')"
    | "weighted_random_sample rnd (population gp) amount None w = Some (xs, w')"
    | "choices rnd (population gp) amount w = Some (xs, w')"
    using assms unfolding sample_def by (simp split: if_splits)
  then show ?thesis
  proof cases
    case 1
    then show ?thesis unfolding tournament_selection_def by (rule tournament_loop_length)
  next
    case 2
    then show ?thesis by (rule weighted_random_sample_length)
  next
    case 3
    then show ?thesis by (rule choices_length)
  qed
qed

lemma IndividualClass_init_unset: "unset (IndividualClass_init f None)"
  by (simp add: unset_def IndividualClass_init_def)

lemma mutate_all_props:
  "mutate_all M xs w = (ys, w') \<Longrightarrow> length ys = length xs \<and> list_all unset ys"
proof (induction xs arbitrary: w ys w')
  case Nil
  then show ?case by simp
next
  case (Cons x xs)
  obtain f w1 where m: "mutate M (fenotype x) w = (f, w1)" by (cases "mutate M (fenotype x) w")
  obtain rest w2 where r: "mutate_all M xs w1 = (rest, w2)" by (cases "mutate_all M xs w1")
  have "ys = IndividualClass_init f None # rest"
    using Cons.prems m r by simp
  then show ?case
    using Cons.IH [OF r] by (simp add: IndividualClass_init_unset)
qed

lemma crossover_all_props:
  "crossover_all M p1 p2 is w = Some (ys, w') \<Longrightarrow> length ys = length is \<and> list_all unset ys"
proof (induction "is" arbitrary: w ys)
  case Nil
  then show ?case by simp
next
  case (Cons i "is")
  obtain a where a: "py_getitem p1 i = Some a"
    using Cons.prems by (cases "py_getitem p1 i") simp_all
  obtain b where b: "py_getitem p2 i = Some b"
    using Cons.prems a by (cases "py_getitem p2 i") simp_all
  obtain f w1 where c: "crossover M (fenotype a) (fenotype b) w = (f, w1)"
    by (cases "crossover M (fenotype a) (fenotype b) w")
  obtain rest where r: "crossover_all M p1 p2 is w1 = Some (rest, w')"
    and ys: "ys = IndividualClass_init f None # rest"
    using Cons.prems a b c by (cases "crossover_all M p1 p2 is w1") auto
  show ?case
    using Cons.IH [OF r] by (simp add: ys IndividualClass_init_unset)
qed

lemma length_py_range: "length (py_range a b) = nat (b - a)"
  by (simp add: py_range_def)

lemma reproduce_props:
  assumes "reproduce rnd mutations crossovers gp w = Some (gp', w')"
  shows "\<exists>offspring. gp' = gp\<lparr>population := population gp @ offspring\<rparr>
       \<and> length offspring = nat mutations + nat crossovers \<and> list_all unset offspring"
proof -
  note a = assms [unfolded reproduce_def]
  obtain p1 w1 where p1: "sample rnd gp crossovers w = Some (p1, w1)"
    using a by (cases "sample rnd gp crossovers w") auto
  obtain p2 w2 where p2: "sample rnd gp crossovers w1 = Some (p2, w2)"
    using a p1 by (cases "sample rnd gp crossovers w1") auto
  obtain pm w3 where pm: "sample rnd gp mutations w2 = Some (pm, w3)"
    using a p1 p2 by (cases "sample rnd gp mutations w2") auto
  obtain mutated w4 where mu: "mutate_all (Model gp) pm w3 = (mutated, w4)"
    by (cases "mutate_all (Model gp) pm w3")
  obtain crossed w5 where
    cr: "crossover_all (Model gp) p1 p2 (py_range 0 crossovers) w4 = Some (crossed, w5)"
    using a p1 p2 pm mu
    by (cases "crossover_all (Model gp) p1 p2 (py_range 0 crossovers) w4") auto
  have gp': "gp' = gp\<lparr>population := population gp @ (mutated @ crossed)\<rparr>"
    using a p1 p2 pm mu cr by simp
  have "length mutated = nat mutations" "list_all unset mutated"
    using mutate_all_props [OF mu] sample_length [OF pm] by simp_all
  moreover have "length crossed = nat crossovers" "list_all unset crossed"
    using crossover_all_props [OF cr] by (simp_all add: length_py_range)
  ultimately show ?thesis
    using gp' by (intro exI [of _ "mutated @ crossed"]) simp
qed

section \<open>The phases of \<open>fit\<close>\<close>

lemma comparable_subset: "comparable pop \<Longrightarrow> set pop' \<subseteq> set pop \<Longrightarrow> comparable pop'"
  unfolding comparable_def by blast

lemma set_py_slice_to: "set (py_slice_to xs k) \<subseteq> set xs"
  by (simp add: py_slice_to_def set_take_subset)

lemma sorted_py_slice_to: "sorted (map f xs) \<Longrightarrow> sorted (map f (py_slice_to xs k))"
  by (simp add: py_slice_to_def take_map [symmetric] sorted_wrt_take)

lemma length_py_slice_to:
  "0 \<le> k \<Longrightarrow> length (py_slice_to xs k) = min (nat k) (length xs)"
  by (simp add: py_slice_to_def min_def)

lemma ranked_sorted_sort:
  assumes "comparable pop"
  shows "ranked_sorted (sort_key (\<lambda>ind. rank_key (evaluation ind)) pop)"
  unfolding ranked_sorted_def
  using comparable_subset [OF assms, of "sort_key (\<lambda>ind. rank_key (evaluation ind)) pop"]
  by (simp add: sorted_sort_key)

lemma ranked_sorted_slice: "ranked_sorted pop \<Longrightarrow> ranked_sorted (py_slice_to pop k)"
  unfolding ranked_sorted_def
  using comparable_subset [OF _ set_py_slice_to] sorted_py_slice_to by blast

lemma memoized_all_set: "list_all2 memoized pop pop' \<Longrightarrow> all_set pop'"
  unfolding all_set_def list_all2_conv_all_nth list_all_length memoized_def by simp

lemma all_set_subset: "all_set pop \<Longrightarrow> set pop' \<subseteq> set pop \<Longrightarrow> all_set pop'"
  unfolding all_set_def list_all_iff by blast

lemma x_of_None: "x_of gp None = x_train gp" and y_of_None: "y_of gp None = y_train gp"
  by (simp_all add: x_of_def y_of_def)

lemma rank_and_truncate_props:
  assumes "rank_and_truncate gp w = Some (gp', w')"
  shows "\<exists>ranked. evaluate_population gp None None w = Some (gp\<lparr>population := ranked\<rparr>, w')
       \<and> comparable ranked \<and> list_all2 memoized (population gp) ranked
       \<and> gp' = gp\<lparr>population :=
            py_slice_to (sort_key (\<lambda>ind. rank_key (evaluation ind)) ranked) (population_size gp)\<rparr>"
proof -
  note a = assms [unfolded rank_and_truncate_def]
  obtain gp1 w1 where e: "evaluate_population gp None None w = Some (gp1, w1)"
    using a by (cases "evaluate_population gp None None w") auto
  obtain ranked where g1: "gp1 = gp\<lparr>population := ranked\<rparr>" and c: "comparable ranked"
    and m: "list_all2 memoized (population gp) ranked"
    using evaluate_population_props [OF e] by blast
  have s: "sorted_py (population gp1) = Some (sort_key (\<lambda>ind. rank_key (evaluation ind)) ranked)"
    using sorted_py_comparable [OF c] by (simp add: g1)
  have "gp' = gp\<lparr>population :=
      py_slice_to (sort_key (\<lambda>ind. rank_key (evaluation ind)) ranked) (population_size gp)\<rparr>"
    and "w' = w1"
    using a e s by (simp_all add: g1)
  then show ?thesis
    using e c m g1 by (intro exI [of _ ranked]) simp
qed

lemma rank_and_truncate_result:
  assumes "rank_and_truncate gp w = Some (gp', w')"
  shows "ranked_sorted (population gp') \<and> all_set (population gp')
       \<and> population_size gp' = population_size gp
       \<and> ran_generations gp' = ran_generations gp
       \<and> (0 \<le> population_size gp \<longrightarrow>
            length (population gp') = min (nat (population_size gp)) (length (population gp)))"
proof -
  obtain ranked where c: "comparable ranked" and m: "list_all2 memoized (population gp) ranked"
    and g: "gp' = gp\<lparr>population :=
            py_slice_to (sort_key (\<lambda>ind. rank_key (evaluation ind)) ranked) (population_size gp)\<rparr>"
    using rank_and_truncate_props [OF assms] by blast
  have p: "population gp' =
      py_slice_to (sort_key (\<lambda>ind. rank_key (evaluation ind)) ranked) (population_size gp)"
    by (simp add: g)
  have 1: "ranked_sorted (population gp')"
    unfolding p by (intro ranked_sorted_slice ranked_sorted_sort c)
  have "set (population gp') \<subseteq> set ranked"
    unfolding p using set_py_slice_to [of "sort_key (\<lambda>ind. rank_key (evaluation ind)) ranked"]
    by simp
  then have 2: "all_set (population gp')"
    using all_set_subset [OF memoized_all_set [OF m]] by blast
  have l: "length ranked = length (population gp)"
    using m by (simp add: list_all2_lengthD)
  have 3: "0 \<le> population_size gp \<longrightarrow>
      length (population gp') = min (nat (population_size gp)) (length (population gp))"
    unfolding p by (simp add: length_py_slice_to l)
  show ?thesis
    using 1 2 3 by (simp add: g)
qed

lemma generation_step_cases:
  assumes "generation_step rnd mutations crossovers generation gp w = Some (gp', w')"
  obtains gp1 w1 where
    "reproduce rnd mutations crossovers (gp\<lparr>ran_generations := generation\<rparr>) w = Some (gp1, w1)"
    "rank_and_truncate gp1 w1 = Some (gp', w')"
proof -
  note a = assms [unfolded generation_step_def]
  obtain gp1 w1 where
    r: "reproduce rnd mutations crossovers (gp\<lparr>ran_generations := generation\<rparr>) w = Some (gp1, w1)"
    using a
    by (cases "reproduce rnd mutations crossovers (gp\<lparr>ran_generations := generation\<rparr>) w") auto
  have "rank_and_truncate gp1 w1 = Some (gp', w')"
    using a r by simp
  then show thesis using that r by blast
qed

lemma generation_step_result:
  assumes "generation_step rnd mutations crossovers generation gp w = Some (gp', w')"
  shows "ranked_sorted (population gp') \<and> all_set (population gp')
       \<and> population_size gp' = population_size gp
       \<and> ran_generations gp' = generation
       \<and> (0 \<le> population_size gp \<longrightarrow> length (population gp) = nat (population_size gp) \<longrightarrow>
            length (population gp') = nat (population_size gp))"
  using assms
proof (cases rule: generation_step_cases)
  case (1 gp1 w1)
  obtain offspring where
    g1: "gp1 = gp\<lparr>ran_generations := generation, population := population gp @ offspring\<rparr>"
    using reproduce_props [OF 1(1)] by auto
  have f: "population_size gp1 = population_size gp" "ran_generations gp1 = generation"
    "length (population gp1) = length (population gp) + length offspring"
    by (simp_all add: g1)
  show ?thesis
    using rank_and_truncate_result [OF 1(2)] f by auto
qed


lemma initial_population_cases:
  assumes "initial_population gp x y w = Some (gp1, w1)"
  obtains fs w0 gp0 where
    "generate_population (Model gp) (population_size gp) w = (fs, w0)"
    "evaluate_population
       (gp\<lparr>x_train := x, y_train := y, ran_generations := 0,
           population := map (\<lambda>individual. IndividualClass_init individual None) fs\<rparr>)
       None None w0 = Some (gp0, w1)"
    "sorted_py (population gp0) = Some (population gp1)"
    "gp1 = gp0\<lparr>population := population gp1\<rparr>"
proof -
  note a = assms [unfolded initial_population_def Let_def]
  obtain fs w0 where g: "generate_population (Model gp) (population_size gp) w = (fs, w0)"
    by (cases "generate_population (Model gp) (population_size gp) w")
  obtain gp0 w2 where e: "evaluate_population
       (gp\<lparr>x_train := x, y_train := y, ran_generations := 0,
           population := map (\<lambda>individual. IndividualClass_init individual None) fs\<rparr>)
       None None w0 = Some (gp0, w2)"
    using a g
    by (cases "evaluate_population
       (gp\<lparr>x_train := x, y_train := y, ran_generations := 0,
           population := map (\<lambda>individual. IndividualClass_init individual None) fs\<rparr>)
       None None w0") auto
  obtain s where s: "sorted_py (population gp0) = Some s"
    using a g e by (cases "sorted_py (population gp0)") simp_all
  have "gp1 = gp0\<lparr>population := s\<rparr>" "w1 = w2"
    using a g e s by simp_all
  then show thesis
    using that [of fs w0 gp0] g e s by simp
qed

lemma initial_population_result:
  assumes "initial_population gp x y w = Some (gp1, w1)"
  shows "ranked_sorted (population gp1) \<and> all_set (population gp1)
       \<and> population_size gp1 = population_size gp
       \<and> generations gp1 = generations gp
       \<and> mutation_ratio gp1 = mutation_ratio gp
       \<and> ran_generations gp1 = 0
       \<and> length (population gp1) =
           length (fst (generate_population (Model gp) (population_size gp) w))"
  using assms
proof (cases rule: initial_population_cases)
  case (1 fs w0 gp0)
  let ?g = "gp\<lparr>x_train := x, y_train := y, ran_generations := 0,
           population := map (\<lambda>individual. IndividualClass_init individual None) fs\<rparr>"
  obtain ranked where g0: "gp0 = ?g\<lparr>population := ranked\<rparr>" and c: "comparable ranked"
    and m: "list_all2 memoized (population ?g) ranked"
    using evaluate_population_props [OF 1(2)] by blast
  have s: "population gp1 = sort_key (\<lambda>ind. rank_key (evaluation ind)) ranked"
    using 1(3) sorted_py_comparable [OF c] by (simp add: g0)
  have a: "ranked_sorted (population gp1)"
    unfolding s by (rule ranked_sorted_sort [OF c])
  have b: "all_set (population gp1)"
    using all_set_subset [OF memoized_all_set [OF m], of "population gp1"] by (simp add: s)
  have l: "length ranked = length fs"
    using list_all2_lengthD [OF m] by simp
  have d: "length (population gp1) = length (fst (generate_population (Model gp) (population_size gp) w))"
    by (simp add: s l 1(1))
  have e: "population_size gp1 = population_size gp" "generations gp1 = generations gp"
    "mutation_ratio gp1 = mutation_ratio gp" "ran_generations gp1 = 0"
    by (subst 1(4), simp add: g0)+
  show ?thesis
    using a b d e by simp
qed

lemma fit_cases:
  assumes "fit rnd gp x y w = Some (champion, gp', w')"
  obtains gp1 w1 gp2 ind where
    "initial_population gp x y w = Some (gp1, w1)"
    "generations_loop rnd \<lceil>real_of_int (population_size gp1) * mutation_ratio gp1\<rceil>
       (population_size gp1 - \<lceil>real_of_int (population_size gp1) * mutation_ratio gp1\<rceil>)
       (py_range 1 (generations gp1)) gp1 w1 = Some (gp2, w')"
    "py_getitem (population gp2) 0 = Some ind"
    "champion = fenotype ind"
    "gp' = gp2\<lparr>darwin_champion := Some (fenotype ind)\<rparr>"
proof -
  note a = assms [unfolded fit_def Let_def]
  obtain gp1 w1 where i: "initial_population gp x y w = Some (gp1, w1)"
    using a by (cases "initial_population gp x y w") auto
  obtain gp2 w2 where l: "generations_loop rnd \<lceil>real_of_int (population_size gp1) * mutation_ratio gp1\<rceil>
       (population_size gp1 - \<lceil>real_of_int (population_size gp1) * mutation_ratio gp1\<rceil>)
       (py_range 1 (generations gp1)) gp1 w1 = Some (gp2, w2)"
    using a i
    by (cases "generations_loop rnd \<lceil>real_of_int (population_size gp1) * mutation_ratio gp1\<rceil>
       (population_size gp1 - \<lceil>real_of_int (population_size gp1) * mutation_ratio gp1\<rceil>)
       (py_range 1 (generations gp1)) gp1 w1") auto
  obtain ind where c: "py_getitem (population gp2) 0 = Some ind"
    using a i l by (cases "py_getitem (population gp2) 0") simp_all
  have r: "champion = fenotype ind" "gp' = gp2\<lparr>darwin_champion := Some (fenotype ind)\<rparr>"
    and w: "w2 = w'"
    using a i l c by auto
  show thesis
    by (rule that [OF i l [unfolded w] c r])
qed



lemma generations_loop_append:
  "generations_loop rnd m c (xs @ ys) gp w =
     do { (gp1, w1) \<leftarrow> generations_loop rnd m c xs gp w; generations_loop rnd m c ys gp1 w1 }"
proof (induction xs arbitrary: gp w)
  case Nil
  show ?case by simp
next
  case (Cons g xs)
  show ?case
    by (cases "generation_step rnd m c g gp w") (auto simp: Cons.IH)
qed

lemma generations_loop_single:
  "generations_loop rnd m c [g] gp w = generation_step rnd m c g gp w"
  by (cases "generation_step rnd m c g gp w") auto

lemma py_range_1_Suc: "py_range 1 (int (Suc (Suc k))) = py_range 1 (int (Suc k)) @ [int (Suc k)]"
proof -
  have "[1..int (Suc k)] = [1..int (Suc k) - 1] @ [int (Suc k)]"
    by (rule upto_rec2) simp
  then show ?thesis by (simp add: py_range_def)
qed

lemma generations_loop_run_cycles:
  "generations_loop rnd m c (py_range 1 (int (Suc k))) gp w = run_cycles rnd m c k gp w"
proof (induction k)
  case 0
  show ?case by (simp add: py_range_def)
next
  case (Suc k)
  show ?case
    unfolding py_range_1_Suc generations_loop_append Suc.IH
    by (cases "run_cycles rnd m c k gp w") (auto simp: generations_loop_single simp del: generations_loop.simps)
qed

lemma py_range_1_nonpos: "g \<le> 1 \<Longrightarrow> py_range 1 g = []"
  by (simp add: py_range_def)

lemma generations_loop_cycles:
  "generations_loop rnd m c (py_range 1 g) gp w = run_cycles rnd m c (nat (g - 1)) gp w"
proof (cases "g \<le> 1")
  case True
  then show ?thesis by (simp add: py_range_1_nonpos)
next
  case False
  then have "g = int (Suc (nat (g - 1)))" by simp
  then show ?thesis
    using generations_loop_run_cycles [of rnd m c "nat (g - 1)" gp w] by simp
qed


lemma run_cycles_prefix:
  "run_cycles rnd m c n gp w = Some r \<Longrightarrow> k \<le> n \<Longrightarrow> \<exists>r'. run_cycles rnd m c k gp w = Some r'"
proof (induction n arbitrary: r)
  case 0
  then show ?case by simp
next
  case (Suc n)
  show ?case
  proof (cases "k = Suc n")
    case True
    then show ?thesis using Suc.prems(1) by blast
  next
    case False
    then have k: "k \<le> n" using Suc.prems(2) by simp
    obtain r0 where "run_cycles rnd m c n gp w = Some r0"
      using Suc.prems(1) by (cases "run_cycles rnd m c n gp w") simp_all
    then show ?thesis using Suc.IH k by blast
  qed
qed

lemma run_cycles_Suc_cases:
  assumes "run_cycles rnd m c (Suc k) gp w = Some (gpn, wn)"
  obtains gpk wk where "run_cycles rnd m c k gp w = Some (gpk, wk)"
    "generation_step rnd m c (int (Suc k)) gpk wk = Some (gpn, wn)"
  using assms by (cases "run_cycles rnd m c k gp w") auto

lemma run_cycles_size:
  assumes "run_cycles rnd m c k gp w = Some (gp', w')"
    and "0 \<le> population_size gp" "length (population gp) = nat (population_size gp)"
  shows "population_size gp' = population_size gp
       \<and> length (population gp') = nat (population_size gp)"
  using assms(1)
proof (induction k arbitrary: gp' w')
  case 0
  then show ?case using assms(3) by simp
next
  case (Suc k)
  from Suc.prems obtain gpk wk where k: "run_cycles rnd m c k gp w = Some (gpk, wk)"
    and s: "generation_step rnd m c (int (Suc k)) gpk wk = Some (gp', w')"
    by (rule run_cycles_Suc_cases)
  show ?case
    using Suc.IH [OF k] generation_step_result [OF s] assms(2) by simp
qed

lemma mutations_bounds:
  assumes "0 \<le> (ps :: int)" "0 \<le> (r :: real)" "r \<le> 1"
  shows "0 \<le> \<lceil>real_of_int ps * r\<rceil> \<and> \<lceil>real_of_int ps * r\<rceil> \<le> ps"
proof -
  have "0 \<le> real_of_int ps * r" using assms by simp
  then have a: "0 \<le> \<lceil>real_of_int ps * r\<rceil>" by (simp add: ceiling_le_iff le_ceiling_iff)
  have "real_of_int ps * r \<le> real_of_int ps"
    using assms by (simp add: mult_left_le)
  then have "\<lceil>real_of_int ps * r\<rceil> \<le> ps" by (simp add: ceiling_le_iff)
  then show ?thesis using a by simp
qed

lemma filter_unset_append:
  assumes "all_set pop" "list_all unset offspring"
  shows "filter unset (pop @ offspring) = offspring"
proof -
  have "filter unset pop = []"
    using assms(1) by (simp add: all_set_def list_all_iff filter_empty_conv)
  moreover have "filter unset offspring = offspring"
    using assms(2) by (simp add: list_all_iff)
  ultimately show ?thesis by simp
qed

section \<open>The champion\<close>





section \<open>The number of cycles\<close>



section \<open>The size of the population\<close>

text \<open>
  C5, as the code has it. If \<open>generate_population\<close> returns \<open>population_size\<close>
  fenotypes, the population holds \<open>population_size\<close> individuals after the initial
  evaluation, before and after every cycle and when \<open>fit\<close> returns. In between,
  reproduction grows it to \<open>population_size + max(0, mutations) + max(0, crossovers)\<close>,
  which is \<open>population_size + mutations + crossovers\<close> when the mutation ratio lies
  between 0 and 1.
\<close>

theorem population_size_at_generation_boundaries:
  assumes "fit rnd gp x y w = Some (champion, gp', w')"
    and "int (length (fst (generate_population (Model gp) (population_size gp) w))) = population_size gp"
  shows "\<exists>gp1 w1. initial_population gp x y w = Some (gp1, w1)
       \<and> int (length (population gp1)) = population_size gp
       \<and> (\<forall>k < nat (generations gp - 1). \<exists>gpk wk gpr wr gpn wn.
             run_cycles rnd \<lceil>real_of_int (population_size gp) * mutation_ratio gp\<rceil>
               (population_size gp - \<lceil>real_of_int (population_size gp) * mutation_ratio gp\<rceil>)
               k gp1 w1 = Some (gpk, wk)
           \<and> int (length (population gpk)) = population_size gp
           \<and> reproduce rnd \<lceil>real_of_int (population_size gp) * mutation_ratio gp\<rceil>
               (population_size gp - \<lceil>real_of_int (population_size gp) * mutation_ratio gp\<rceil>)
               (gpk\<lparr>ran_generations := int (Suc k)\<rparr>) wk = Some (gpr, wr)
           \<and> int (length (population gpr)) =
               population_size gp
               + max 0 \<lceil>real_of_int (population_size gp) * mutation_ratio gp\<rceil>
               + max 0 (population_size gp - \<lceil>real_of_int (population_size gp) * mutation_ratio gp\<rceil>)
           \<and> (0 \<le> mutation_ratio gp \<and> mutation_ratio gp \<le> 1 \<longrightarrow>
                int (length (population gpr)) =
                  population_size gp
                  + \<lceil>real_of_int (population_size gp) * mutation_ratio gp\<rceil>
                  + (population_size gp - \<lceil>real_of_int (population_size gp) * mutation_ratio gp\<rceil>))
           \<and> rank_and_truncate gpr wr = Some (gpn, wn)
           \<and> run_cycles rnd \<lceil>real_of_int (population_size gp) * mutation_ratio gp\<rceil>
               (population_size gp - \<lceil>real_of_int (population_size gp) * mutation_ratio gp\<rceil>)
               (Suc k) gp1 w1 = Some (gpn, wn)
           \<and> int (length (population gpn)) = population_size gp)
       \<and> int (length (population gp')) = population_size gp"
  using assms(1)
proof (cases rule: fit_cases)
  case (1 gp1 w1 gp2 ind)
  define M where "M = \<lceil>real_of_int (population_size gp) * mutation_ratio gp\<rceil>"
  define C where "C = population_size gp - M"
  note i = initial_population_result [OF 1(1)]
  have e: "population_size gp1 = population_size gp" "mutation_ratio gp1 = mutation_ratio gp"
    "generations gp1 = generations gp"
    using i by simp_all
  have ps: "0 \<le> population_size gp"
    using assms(2) by linarith
  have l1: "length (population gp1) = nat (population_size gp)"
    using i assms(2) by simp
  have l1': "int (length (population gp1)) = population_size gp"
    using l1 ps by simp
  have c: "run_cycles rnd M C (nat (generations gp - 1)) gp1 w1 = Some (gp2, w')"
    using 1(2) unfolding e generations_loop_cycles M_def C_def .
  have start: "0 \<le> population_size gp1" "length (population gp1) = nat (population_size gp1)"
    using ps l1 e by simp_all
  have final: "int (length (population gp')) = population_size gp"
    using run_cycles_size [OF c start] ps e by (simp add: 1(5))
  have cyc: "\<exists>gpk wk gpr wr gpn wn.
             run_cycles rnd M C k gp1 w1 = Some (gpk, wk)
           \<and> int (length (population gpk)) = population_size gp
           \<and> reproduce rnd M C (gpk\<lparr>ran_generations := int (Suc k)\<rparr>) wk = Some (gpr, wr)
           \<and> int (length (population gpr)) = population_size gp + max 0 M + max 0 C
           \<and> (0 \<le> mutation_ratio gp \<and> mutation_ratio gp \<le> 1 \<longrightarrow>
                int (length (population gpr)) = population_size gp + M + C)
           \<and> rank_and_truncate gpr wr = Some (gpn, wn)
           \<and> run_cycles rnd M C (Suc k) gp1 w1 = Some (gpn, wn)
           \<and> int (length (population gpn)) = population_size gp"
    if "k < nat (generations gp - 1)" for k
  proof -
    have "Suc k \<le> nat (generations gp - 1)" using that by simp
    from run_cycles_prefix [OF c this]
    obtain gpn wn where n: "run_cycles rnd M C (Suc k) gp1 w1 = Some (gpn, wn)"
      by (metis surj_pair)
    from n obtain gpk wk where k: "run_cycles rnd M C k gp1 w1 = Some (gpk, wk)"
      and s: "generation_step rnd M C (int (Suc k)) gpk wk = Some (gpn, wn)"
      by (rule run_cycles_Suc_cases)
    from s obtain gpr wr where
      r: "reproduce rnd M C (gpk\<lparr>ran_generations := int (Suc k)\<rparr>) wk = Some (gpr, wr)"
      and t: "rank_and_truncate gpr wr = Some (gpn, wn)"
      by (rule generation_step_cases)
    have lk: "population_size gpk = population_size gp" "length (population gpk) = nat (population_size gp)"
      using run_cycles_size [OF k start] e by simp_all
    have ln: "length (population gpn) = nat (population_size gp)"
      using run_cycles_size [OF n start] e by simp
    obtain offspring where
      o: "gpr = gpk\<lparr>ran_generations := int (Suc k), population := population gpk @ offspring\<rparr>"
      and lo: "length offspring = nat M + nat C"
      using reproduce_props [OF r] by auto
    have lr: "int (length (population gpr)) = population_size gp + max 0 M + max 0 C"
      using lk lo ps by (simp add: o)
    have am: "int (length (population gpr)) = population_size gp + M + C"
      if "0 \<le> mutation_ratio gp \<and> mutation_ratio gp \<le> 1"
    proof -
      have "0 \<le> M \<and> M \<le> population_size gp"
        unfolding M_def using mutations_bounds [OF ps] that by blast
      then show ?thesis using lr by (simp add: C_def)
    qed
    show ?thesis
      using k lk ps r lr am t n ln by (intro exI [of _ gpk] exI [of _ wk] exI [of _ gpr]
        exI [of _ wr] exI [of _ gpn] exI [of _ wn]) simp
  qed
  show ?thesis
    using 1(1) l1' cyc final unfolding M_def C_def by blast
qed

theorem population_size_at_generation_boundaries_witness:
  "\<exists>champion gp' w' gp1 w1 gpr wr gpn wn.
      fit example_rnd (example_gp 2 (4 / 10)) [] [] 0 = Some (champion, gp', w')
    \<and> int (length (fst (generate_population (Model (example_gp 2 (4 / 10)))
          (population_size (example_gp 2 (4 / 10))) 0))) = population_size (example_gp 2 (4 / 10))
    \<and> initial_population (example_gp 2 (4 / 10)) [] [] 0 = Some (gp1, w1)
    \<and> int (length (population gp1)) = 3
    \<and> reproduce example_rnd 2 1 (gp1\<lparr>ran_generations := 1\<rparr>) w1 = Some (gpr, wr)
    \<and> int (length (population gpr)) = 3 + 2 + 1
    \<and> rank_and_truncate gpr wr = Some (gpn, wn)
    \<and> int (length (population gpn)) = 3
    \<and> int (length (population gp')) = 3"
proof -
  have e: "map_option (\<lambda>(champion, gp', w'). champion)
      (fit example_rnd (example_gp 2 (4 / 10)) [] [] 0) = Some 1"
    by code_simp
  obtain champion gp' w' where
    r: "fit example_rnd (example_gp 2 (4 / 10)) [] [] 0 = Some (champion, gp', w')"
    using e by (cases "fit example_rnd (example_gp 2 (4 / 10)) [] [] 0") (simp, metis prod_cases3)
  have gen: "int (length (fst (generate_population (Model (example_gp 2 (4 / 10)))
          (population_size (example_gp 2 (4 / 10))) 0))) = population_size (example_gp 2 (4 / 10))"
    by (simp add: example_gp_def example_model_def)
  have g: "generations (example_gp 2 (4 / 10)) = 2" "population_size (example_gp 2 (4 / 10)) = 3"
    "mutation_ratio (example_gp 2 (4 / 10)) = 4 / 10"
    by (simp_all add: example_gp_def)
  have c: "\<lceil>real_of_int 3 * (4 / 10)\<rceil> = (2 :: int)"
    by simp
  have n: "nat (2 - 1) = Suc 0" "(3 :: int) - 2 = 1" "max (0 :: int) 2 = 2" "max (0 :: int) 1 = 1"
    by simp_all
  note t = population_size_at_generation_boundaries [OF r gen, unfolded g c n]
  from t obtain gp1 w1 where
    i: "initial_population (example_gp 2 (4 / 10)) [] [] 0 = Some (gp1, w1)"
    and l1: "int (length (population gp1)) = 3"
    and cyc: "\<forall>k < Suc 0. \<exists>gpk wk gpr wr gpn wn.
             run_cycles example_rnd 2 1 k gp1 w1 = Some (gpk, wk)
           \<and> int (length (population gpk)) = 3
           \<and> reproduce example_rnd 2 1 (gpk\<lparr>ran_generations := int (Suc k)\<rparr>) wk = Some (gpr, wr)
           \<and> int (length (population gpr)) = 3 + 2 + 1
           \<and> (0 \<le> (4 / 10 :: real) \<and> (4 / 10 :: real) \<le> 1 \<longrightarrow>
                int (length (population gpr)) = 3 + 2 + 1)
           \<and> rank_and_truncate gpr wr = Some (gpn, wn)
           \<and> run_cycles example_rnd 2 1 (Suc k) gp1 w1 = Some (gpn, wn)
           \<and> int (length (population gpn)) = 3"
    and lf: "int (length (population gp')) = 3"
    by blast
  from cyc [rule_format, of 0] obtain gpk wk gpr wr gpn wn where
    k: "run_cycles example_rnd 2 1 0 gp1 w1 = Some (gpk, wk)"
    and rp: "reproduce example_rnd 2 1 (gpk\<lparr>ran_generations := int (Suc 0)\<rparr>) wk = Some (gpr, wr)"
    and lr: "int (length (population gpr)) = 3 + 2 + 1"
    and rt: "rank_and_truncate gpr wr = Some (gpn, wn)"
    and ln: "int (length (population gpn)) = 3"
    by blast
  have k': "gpk = gp1" "wk = w1"
    using k by simp_all
  have rp': "reproduce example_rnd 2 1 (gp1\<lparr>ran_generations := 1\<rparr>) w1 = Some (gpr, wr)"
    using rp unfolding k' by simp
  show ?thesis
    by (intro exI [of _ champion] exI [of _ gp'] exI [of _ w'] exI [of _ gp1] exI [of _ w1]
          exI [of _ gpr] exI [of _ wr] exI [of _ gpn] exI [of _ wn] conjI r gen i l1 rp' lr rt ln lf)
qed

text \<open>
  C5 as stated fails for a mutation ratio above 1, which the constructor accepts: with a
  population size of 3 and a mutation ratio of 2, \<open>mutations\<close> is 6 and \<open>crossovers\<close> is
  -3; reproduction appends 6 mutated individuals and no crossover, so the population
  grows to 9 entries and not to 3 + 6 + (-3) = 6.
\<close>

theorem population_growth_counterexample:
  "\<exists>gp1 w1 gpr wr.
      \<lceil>real_of_int (population_size (example_gp 2 2)) * mutation_ratio (example_gp 2 2)\<rceil> = 6
    \<and> population_size (example_gp 2 2) - 6 = - 3
    \<and> initial_population (example_gp 2 2) [] [] 0 = Some (gp1, w1)
    \<and> reproduce example_rnd 6 (- 3) (gp1\<lparr>ran_generations := 1\<rparr>) w1 = Some (gpr, wr)
    \<and> int (length (population gpr)) = 9
    \<and> int (length (population gpr)) \<noteq> population_size (example_gp 2 2) + 6 + (- 3)
    \<and> fit example_rnd (example_gp 2 2) [] [] 0 \<noteq> None"
proof -
  have e: "initial_population (example_gp 2 2) [] [] 0 \<bind>
      (\<lambda>(gp1, w1). reproduce example_rnd 6 (- 3) (gp1\<lparr>ran_generations := 1\<rparr>) w1 \<bind>
        (\<lambda>(gpr, wr). Some (length (population gpr)))) = Some 9"
    by code_simp
  obtain gp1 w1 where i: "initial_population (example_gp 2 2) [] [] 0 = Some (gp1, w1)"
    using e by (cases "initial_population (example_gp 2 2) [] [] 0") auto
  obtain gpr wr where
    rp: "reproduce example_rnd 6 (- 3) (gp1\<lparr>ran_generations := 1\<rparr>) w1 = Some (gpr, wr)"
    using e unfolding i
    by (cases "reproduce example_rnd 6 (- 3) (gp1\<lparr>ran_generations := 1\<rparr>) w1") auto
  have l: "int (length (population gpr)) = 9"
    using e unfolding i by (simp add: rp)
  have m: "\<lceil>real_of_int (population_size (example_gp 2 2)) * mutation_ratio (example_gp 2 2)\<rceil> = 6"
    "population_size (example_gp 2 2) - 6 = - 3"
    by (simp_all add: example_gp_def)
  have ne: "int (length (population gpr)) \<noteq> population_size (example_gp 2 2) + 6 + (- 3)"
    unfolding l by (simp add: example_gp_def)
  have f: "map_option (\<lambda>(champion, gp', w'). champion)
      (fit example_rnd (example_gp 2 2) [] [] 0) = Some 1"
    by code_simp
  then have f': "fit example_rnd (example_gp 2 2) [] [] 0 \<noteq> None"
    by (cases "fit example_rnd (example_gp 2 2) [] [] 0") simp_all
  show ?thesis
    by (intro exI [of _ gp1] exI [of _ w1] exI [of _ gpr] exI [of _ wr] conjI m i rp l ne f')
qed

section \<open>Memoized objective values\<close>

text \<open>
  C6. A call of \<open>_evaluate_population\<close> scores exactly the individuals whose
  \<open>objective_values\<close> is \<open>None\<close>, in order (the world it leaves is the world after
  scoring those and no others), and leaves the fenotype and the \<open>objective_values\<close> of
  every other individual as they were. In a generation that starts from a population whose
  objective values are all set, exactly the offspring are scored; the survivors are among
  the individuals so evaluated, and again have all their objective values set.
\<close>

theorem objective_values_computed_once:
  "(evaluate_population gp x y w = Some (gp', w') \<longrightarrow>
       list_all2 memoized (population gp) (population gp')
     \<and> score_all gp (x_of gp x) (y_of gp y) (map fenotype (filter unset (population gp))) w = Some w')
   \<and> (all_set (population gp0) \<and> generation_step rnd m c g gp0 w0 = Some (gpn, wn) \<longrightarrow>
       (\<exists>gpr wr offspring ranked.
            reproduce rnd m c (gp0\<lparr>ran_generations := g\<rparr>) w0 = Some (gpr, wr)
          \<and> population gpr = population gp0 @ offspring
          \<and> score_all gpr (x_train gpr) (y_train gpr) (map fenotype offspring) wr = Some wn
          \<and> list_all2 memoized (population gp0 @ offspring) ranked
          \<and> set (population gpn) \<subseteq> set ranked
          \<and> all_set (population gpn)))"
proof (intro conjI impI)
  assume a: "evaluate_population gp x y w = Some (gp', w')"
  obtain pop' where "gp' = gp\<lparr>population := pop'\<rparr>" "list_all2 memoized (population gp) pop'"
    "score_all gp (x_of gp x) (y_of gp y) (map fenotype (filter unset (population gp))) w = Some w'"
    using evaluate_population_props [OF a] by blast
  then show "list_all2 memoized (population gp) (population gp')"
    and "score_all gp (x_of gp x) (y_of gp y) (map fenotype (filter unset (population gp))) w = Some w'"
    by simp_all
next
  assume b: "all_set (population gp0) \<and> generation_step rnd m c g gp0 w0 = Some (gpn, wn)"
  then have s: "generation_step rnd m c g gp0 w0 = Some (gpn, wn)" and as: "all_set (population gp0)"
    by simp_all
  from s obtain gpr wr where
    r: "reproduce rnd m c (gp0\<lparr>ran_generations := g\<rparr>) w0 = Some (gpr, wr)"
    and t: "rank_and_truncate gpr wr = Some (gpn, wn)"
    by (rule generation_step_cases)
  obtain offspring where
    o: "gpr = gp0\<lparr>ran_generations := g, population := population gp0 @ offspring\<rparr>"
    and u: "list_all unset offspring"
    using reproduce_props [OF r] by auto
  have p: "population gpr = population gp0 @ offspring"
    by (simp add: o)
  obtain ranked where e: "evaluate_population gpr None None wr = Some (gpr\<lparr>population := ranked\<rparr>, wn)"
    and m: "list_all2 memoized (population gpr) ranked"
    and n: "gpn = gpr\<lparr>population :=
            py_slice_to (sort_key (\<lambda>ind. rank_key (evaluation ind)) ranked) (population_size gpr)\<rparr>"
    using rank_and_truncate_props [OF t] by blast
  have "score_all gpr (x_of gpr None) (y_of gpr None)
      (map fenotype (filter unset (population gpr))) wr = Some wn"
    using evaluate_population_props [OF e] by blast
  then have sc: "score_all gpr (x_train gpr) (y_train gpr) (map fenotype offspring) wr = Some wn"
    unfolding x_of_None y_of_None p filter_unset_append [OF as u] .
  have sub: "set (population gpn) \<subseteq> set ranked"
    using set_py_slice_to [of "sort_key (\<lambda>ind. rank_key (evaluation ind)) ranked"]
    by (simp add: n)
  have al: "all_set (population gpn)"
    using rank_and_truncate_result [OF t] by simp
  show "\<exists>gpr wr offspring ranked.
            reproduce rnd m c (gp0\<lparr>ran_generations := g\<rparr>) w0 = Some (gpr, wr)
          \<and> population gpr = population gp0 @ offspring
          \<and> score_all gpr (x_train gpr) (y_train gpr) (map fenotype offspring) wr = Some wn
          \<and> list_all2 memoized (population gp0 @ offspring) ranked
          \<and> set (population gpn) \<subseteq> set ranked
          \<and> all_set (population gpn)"
    using r p sc m sub al by (intro exI [of _ gpr] exI [of _ wr] exI [of _ offspring] exI [of _ ranked]) simp
qed

theorem objective_values_computed_once_witness:
  "\<exists>gp' w' gp0 w0 gpn wn gpr wr offspring ranked.
      evaluate_population
        ((example_gp 2 (4 / 10))\<lparr>population :=
           [\<lparr>fenotype = 7, evaluation = EList [], objective_values = Some [7]\<rparr>,
            IndividualClass_init 4 None]\<rparr>) None None 0 = Some (gp', w')
    \<and> w' = 1
    \<and> map objective_values (population gp') = [Some [7], Some [4]]
    \<and> list_all2 memoized
          [\<lparr>fenotype = 7, evaluation = EList [], objective_values = Some [7]\<rparr>,
           IndividualClass_init 4 None] (population gp')
    \<and> score_all
          ((example_gp 2 (4 / 10))\<lparr>population :=
             [\<lparr>fenotype = 7, evaluation = EList [], objective_values = Some [7]\<rparr>,
              IndividualClass_init 4 None]\<rparr>) [] [] [4] 0 = Some w'
    \<and> initial_population (example_gp 2 (4 / 10)) [] [] 0 = Some (gp0, w0)
    \<and> w0 = 3
    \<and> all_set (population gp0)
    \<and> generation_step example_rnd 2 1 1 gp0 w0 = Some (gpn, wn)
    \<and> wn = 6
    \<and> reproduce example_rnd 2 1 (gp0\<lparr>ran_generations := 1\<rparr>) w0 = Some (gpr, wr)
    \<and> population gpr = population gp0 @ offspring
    \<and> score_all gpr (x_train gpr) (y_train gpr) (map fenotype offspring) wr = Some wn
    \<and> list_all2 memoized (population gp0 @ offspring) ranked
    \<and> set (population gpn) \<subseteq> set ranked
    \<and> all_set (population gpn)"
proof -
  define gpA where "gpA = (example_gp 2 (4 / 10))\<lparr>population :=
           [\<lparr>fenotype = 7, evaluation = EList [], objective_values = Some [7]\<rparr>,
            IndividualClass_init 4 None]\<rparr>"
  have e: "map_option (\<lambda>(gp', w'). (map objective_values (population gp'), w'))
      (evaluate_population
        ((example_gp 2 (4 / 10))\<lparr>population :=
           [\<lparr>fenotype = 7, evaluation = EList [], objective_values = Some [7]\<rparr>,
            IndividualClass_init 4 None]\<rparr>) None None 0) = Some ([Some [7], Some [4]], 1)"
    by code_simp
  obtain gp' w' where a: "evaluate_population gpA None None 0 = Some (gp', w')"
    using e unfolding gpA_def [symmetric]
    by (cases "evaluate_population gpA None None 0") auto
  have v: "w' = 1" "map objective_values (population gp') = [Some [7], Some [4]]"
    using e unfolding gpA_def [symmetric] a by simp_all
  have pA: "population gpA =
      [\<lparr>fenotype = 7, evaluation = EList [], objective_values = Some [7]\<rparr>, IndividualClass_init 4 None]"
    by (simp add: gpA_def)
  have fA: "map fenotype (filter unset (population gpA)) = [4]"
    by (simp add: pA unset_def IndividualClass_init_def)
  have xA: "x_of gpA None = []" "y_of gpA None = []"
    by (simp_all add: x_of_def y_of_def gpA_def example_gp_def)
  have f: "map_option (\<lambda>(gp0, w0). w0) (initial_population (example_gp 2 (4 / 10)) [] [] 0) = Some 3"
    by code_simp
  obtain gp0 w0 where i: "initial_population (example_gp 2 (4 / 10)) [] [] 0 = Some (gp0, w0)"
    using f by (cases "initial_population (example_gp 2 (4 / 10)) [] [] 0") auto
  have w0: "w0 = 3"
    using f unfolding i by simp
  have as: "all_set (population gp0)"
    using initial_population_result [OF i] by simp
  have g: "initial_population (example_gp 2 (4 / 10)) [] [] 0 \<bind>
      (\<lambda>(gp0, w0). map_option (\<lambda>(gpn, wn). wn) (generation_step example_rnd 2 1 1 gp0 w0)) = Some 6"
    by code_simp
  obtain gpn wn where s: "generation_step example_rnd 2 1 1 gp0 w0 = Some (gpn, wn)"
    using g unfolding i by (cases "generation_step example_rnd 2 1 1 gp0 w0") auto
  have wn: "wn = 6"
    using g unfolding i by (simp add: s)
  note t = objective_values_computed_once
    [of gpA None None 0 gp' w' gp0 example_rnd 2 1 1 w0 gpn wn]
  have t1: "list_all2 memoized (population gpA) (population gp')"
    and t2: "score_all gpA (x_of gpA None) (y_of gpA None)
        (map fenotype (filter unset (population gpA))) 0 = Some w'"
    using t [THEN conjunct1, rule_format, OF a] by simp_all
  from t [THEN conjunct2, rule_format, OF conjI [OF as s]]
  obtain gpr wr offspring ranked where
    rp: "reproduce example_rnd 2 1 (gp0\<lparr>ran_generations := 1\<rparr>) w0 = Some (gpr, wr)"
    and p: "population gpr = population gp0 @ offspring"
    and sc: "score_all gpr (x_train gpr) (y_train gpr) (map fenotype offspring) wr = Some wn"
    and m: "list_all2 memoized (population gp0 @ offspring) ranked"
    and sub: "set (population gpn) \<subseteq> set ranked"
    and al: "all_set (population gpn)"
    by blast
  show ?thesis
    by (intro exI [of _ gp'] exI [of _ w'] exI [of _ gp0] exI [of _ w0] exI [of _ gpn]
          exI [of _ wn] exI [of _ gpr] exI [of _ wr] exI [of _ offspring] exI [of _ ranked] conjI
          a [unfolded gpA_def] v t1 [unfolded pA] t2 [unfolded fA xA, unfolded gpA_def]
          i w0 as s wn rp p sc m sub al)
qed

section \<open>The crowding distance is the specified one\<close>


































end
